theory Spec2Isabelle
  imports Main
begin

section \<open>Service-principal credential entries\<close>

text \<open>
  An entry of the secret store is a Python dict with string keys, read from and written
  to JSON. It is modelled as a partial map from keys to string values: \<open>e k = None\<close> says
  that the key is absent, so \<open>e[k]\<close> raises KeyError there and \<open>e.get(k, None)\<close> is None.
  Equality of maps is the equality of dicts.
\<close>

type_synonym entry = "string \<rightharpoonup> string"

definition SERVICE_PRINCIPAL_ID :: string where
  "SERVICE_PRINCIPAL_ID = ''servicePrincipalId''"

definition SERVICE_PRINCIPAL_TENANT :: string where
  "SERVICE_PRINCIPAL_TENANT = ''servicePrincipalTenant''"

definition ACCESS_TOKEN :: string where
  "ACCESS_TOKEN = ''accessToken''"

definition SERVICE_PRINCIPAL_SECRET :: string where
  "SERVICE_PRINCIPAL_SECRET = ''secret''"

definition SERVICE_PRINCIPAL_CERT_FILE :: string where
  "SERVICE_PRINCIPAL_CERT_FILE = ''certificateFile''"

definition SERVICE_PRINCIPAL_CERT_THUMBPRINT :: string where
  "SERVICE_PRINCIPAL_CERT_THUMBPRINT = ''thumbprint''"

subsection \<open>Errors\<close>

text \<open>
  Every exception the modelled code can raise is a value. \<open>CLIError\<close> carries which of
  the module's messages it was raised with: \<open>CouldNotRetrieve sp\<close> is "Could not retrieve
  credential from local cache for service principal sp. Please run az login for this
  service principal.", \<open>FailedToLoad\<close> is "Failed to load token files. ...",
  \<open>FailedToMigrate\<close> is "Failed to migrate token from ADAL cache to MSAL cache. ..." and
  \<open>MissingSecretOrCertificate\<close> is "Missing secret or certificate in order to
  authenticate through a service principal".
  \<open>NameError n\<close> is the use of a name \<open>n\<close> that is bound neither in the function nor in
  the module, \<open>KeyError k\<close> is a subscript on a dict without the key \<open>k\<close>, \<open>TypeError\<close> a call with
  the wrong number of arguments, \<open>PersistenceError\<close> whatever the construction of the
  secret-service backend raised, \<open>OSError\<close> a failing write or delete of the token file.
\<close>

datatype cli_message =
    CouldNotRetrieve string
  | FailedToLoad
  | FailedToMigrate
  | MissingSecretOrCertificate

datatype error =
    CLIError cli_message
  | NameError string
  | KeyError string
  | TypeError
  | PersistenceError
  | OSError

subsection \<open>ServicePrincipalAuth\<close>

text \<open>
  The attributes of a \<open>ServicePrincipalAuth\<close> object. The constructor sets either
  \<open>secret\<close> or the certificate attributes; an attribute that was not set is \<open>None\<close>
  (\<open>hasattr(self, 'secret')\<close> is \<open>secret a \<noteq> None\<close>). Reading the certificate file and
  taking its SHA-1 digest is the work of OpenSSL: \<open>digest\<close> gives the thumbprint of a
  readable certificate file and \<open>None\<close> where reading or parsing fails.
\<close>

record ServicePrincipalAuth =
  client_id :: string
  tenant_id :: string
  secret :: "string option"
  certificate_file :: "string option"
  thumbprint :: "string option"

definition truthy :: "string option \<Rightarrow> bool" where
  "truthy v = (case v of None \<Rightarrow> False | Some s \<Rightarrow> s \<noteq> [])"

definition ServicePrincipalAuth_init ::
  "(string \<Rightarrow> string option) \<Rightarrow> string \<Rightarrow> string \<Rightarrow> string option \<Rightarrow> string option
     \<Rightarrow> error + ServicePrincipalAuth" where
  "ServicePrincipalAuth_init digest cid tid sec cert =
     (if \<not> (truthy sec \<or> truthy cert) then Inl (CLIError MissingSecretOrCertificate)
      else
        (case (if truthy cert then cert else None) of
           Some file \<Rightarrow>
             (case digest file of
                None \<Rightarrow> Inl OSError
              | Some th \<Rightarrow>
                  Inr \<lparr>client_id = cid, tenant_id = tid, secret = None,
                       certificate_file = Some file, thumbprint = Some th\<rparr>)
         | None \<Rightarrow>
             Inr \<lparr>client_id = cid, tenant_id = tid, secret = sec,
                  certificate_file = None, thumbprint = None\<rparr>))"

definition get_entry_to_persist_legacy :: "ServicePrincipalAuth \<Rightarrow> entry" where
  "get_entry_to_persist_legacy a =
     (let entry = [SERVICE_PRINCIPAL_ID \<mapsto> client_id a, SERVICE_PRINCIPAL_TENANT \<mapsto> tenant_id a]
      in case secret a of
           Some s \<Rightarrow> entry(ACCESS_TOKEN \<mapsto> s)
         | None \<Rightarrow>
             (entry(SERVICE_PRINCIPAL_CERT_FILE := certificate_file a))
                  (SERVICE_PRINCIPAL_CERT_THUMBPRINT := thumbprint a))"

definition get_entry_to_persist :: "ServicePrincipalAuth \<Rightarrow> entry" where
  "get_entry_to_persist a =
     (let entry = [SERVICE_PRINCIPAL_ID \<mapsto> client_id a, SERVICE_PRINCIPAL_TENANT \<mapsto> tenant_id a]
      in case secret a of
           Some s \<Rightarrow> entry(SERVICE_PRINCIPAL_SECRET \<mapsto> s)
         | None \<Rightarrow> entry(SERVICE_PRINCIPAL_CERT_FILE := certificate_file a))"

section \<open>The secret store and its host\<close>

text \<open>
  The four persistence classes of \<open>msal_extensions\<close> that \<open>_build_persistence\<close> chooses from.
\<close>

datatype persistence =
    FilePersistenceWithDataProtection
  | KeychainPersistence
  | LibsecretPersistence
  | FilePersistence

text \<open>
  What the backend holds: nothing (\<open>persistence.load()\<close> raises PersistenceNotFound and
  \<open>os.remove\<close> raises FileNotFoundError), the JSON array of entries last saved, or data
  on which \<open>persistence.load()\<close> or \<open>json.loads\<close> raises any other exception.
\<close>

datatype artifact =
    Absent
  | Content "entry list"
  | Undecodable

datatype log_message =
    EncryptionUnavailable
  | CrossTenant string string string
  | MigratingTokenCache
  | NoAdalTokenCache
  | MigratingServicePrincipal string string

text \<open>
  What an operation does to the world outside the store object, in order: entering and
  leaving \<open>with CrossPlatLock(self._lock_file)\<close>, a call of \<open>persistence.load()\<close>, a call of
  \<open>persistence.save(...)\<close>, a call of \<open>os.remove(self._token_file)\<close>, a logger call.
\<close>

datatype event =
    Acquire
  | Release
  | Load
  | Save
  | Remove
  | Log log_message

text \<open>
  The state: the two mutable attributes of \<open>MsalSecretStore\<close>
  (\<open>_service_principal_creds\<close>, \<open>_fallback_to_plaintext\<close>) and the part of the host the
  store depends on: \<open>sys.platform\<close>, whether \<open>LibsecretPersistence(...)\<close> can be
  constructed, whether the token file can be written and deleted, what the backend
  holds, and the events so far.
\<close>

record world =
  service_principal_creds :: "entry list"
  fallback_to_plaintext :: bool
  platform :: string
  libsecret_available :: bool
  storage_writable :: bool
  backing :: artifact
  trace :: "event list"

definition MsalSecretStore_init :: "bool \<Rightarrow> string \<Rightarrow> bool \<Rightarrow> bool \<Rightarrow> artifact \<Rightarrow> world" where
  "MsalSecretStore_init fallback plat avail writable held =
     \<lparr>service_principal_creds = [], fallback_to_plaintext = fallback, platform = plat,
      libsecret_available = avail, storage_writable = writable, backing = held, trace = []\<rparr>"

definition emit :: "event \<Rightarrow> world \<Rightarrow> world" where
  "emit ev w = w\<lparr>trace := trace w @ [ev]\<rparr>"

definition startswith :: "string \<Rightarrow> string \<Rightarrow> bool" where
  "startswith s p = (take (length p) s = p)"

subsection \<open>Backend selection\<close>

definition build_persistence :: "world \<Rightarrow> (error + persistence) \<times> world" where
  "build_persistence w =
     (if startswith (platform w) ''win'' then (Inr FilePersistenceWithDataProtection, w)
      else if startswith (platform w) ''darwin'' then (Inr KeychainPersistence, w)
      else if startswith (platform w) ''linux'' then
        (if libsecret_available w then (Inr LibsecretPersistence, w)
         else if \<not> fallback_to_plaintext w then (Inl PersistenceError, w)
         else (Inr FilePersistence, emit (Log EncryptionUnavailable) w))
      else (Inr FilePersistence, w))"

subsection \<open>Loading and persisting under the lock\<close>

text \<open>
  \<open>_load_cached_creds\<close> and \<open>_persist_cached_creds\<close> build the persistence first, outside
  the lock, and then make their one call of the backend inside
  \<open>with CrossPlatLock(self._lock_file)\<close>; the context manager gives the lock back on
  the normal and on the exceptional exit, so \<open>Release\<close> follows in every branch. A load
  that finds nothing keeps the list in memory as it is; any other failure of the load
  is wrapped into a CLIError. A save on a token file that cannot be written raises
  OSError. \<open>json.loads\<close> after \<open>json.dumps\<close> gives back the list of entries that was
  saved.
\<close>

definition load_cached_creds :: "world \<Rightarrow> (error + unit) \<times> world" where
  "load_cached_creds w =
     (case build_persistence w of
        (Inl e, w1) \<Rightarrow> (Inl e, w1)
      | (Inr p, w1) \<Rightarrow>
          (let w2 = emit Load (emit Acquire w1)
           in case backing w2 of
                Content cs \<Rightarrow> (Inr (), emit Release (w2\<lparr>service_principal_creds := cs\<rparr>))
              | Absent \<Rightarrow> (Inr (), emit Release w2)
              | Undecodable \<Rightarrow> (Inl (CLIError FailedToLoad), emit Release w2)))"

definition persist_cached_creds :: "world \<Rightarrow> (error + unit) \<times> world" where
  "persist_cached_creds w =
     (case build_persistence w of
        (Inl e, w1) \<Rightarrow> (Inl e, w1)
      | (Inr p, w1) \<Rightarrow>
          (let w2 = emit Save (emit Acquire w1)
           in if storage_writable w2
              then (Inr (), emit Release (w2\<lparr>backing := Content (service_principal_creds w2)\<rparr>))
              else (Inl OSError, emit Release w2)))"

subsection \<open>The list comprehensions\<close>

text \<open>
  \<open>[x for x in xs if v == x[k]]\<close>: the subscript raises KeyError at the first element
  without the key \<open>k\<close>.
\<close>

fun select_by :: "string \<Rightarrow> string \<Rightarrow> entry list \<Rightarrow> error + entry list" where
  "select_by k v [] = Inr []"
| "select_by k v (x # xs) =
     (case x k of
        None \<Rightarrow> Inl (KeyError k)
      | Some u \<Rightarrow>
          (case select_by k v xs of
             Inl e \<Rightarrow> Inl e
           | Inr ys \<Rightarrow> Inr (if v = u then x # ys else ys)))"

text \<open>
  The comprehension of \<open>save_service_principal_cred\<close>: for each stored \<open>x\<close> it evaluates
  \<open>sp_entry[ID] == x[ID] and sp_entry[TENANT] == x[TENANT]\<close> from left to right, the
  second comparison only when the first holds.
\<close>

fun select_same_principal :: "entry \<Rightarrow> entry list \<Rightarrow> error + entry list" where
  "select_same_principal sp_entry [] = Inr []"
| "select_same_principal sp_entry (x # xs) =
     (case sp_entry SERVICE_PRINCIPAL_ID of
        None \<Rightarrow> Inl (KeyError SERVICE_PRINCIPAL_ID)
      | Some i \<Rightarrow>
     (case x SERVICE_PRINCIPAL_ID of
        None \<Rightarrow> Inl (KeyError SERVICE_PRINCIPAL_ID)
      | Some j \<Rightarrow>
          if i \<noteq> j then select_same_principal sp_entry xs
          else
     (case sp_entry SERVICE_PRINCIPAL_TENANT of
        None \<Rightarrow> Inl (KeyError SERVICE_PRINCIPAL_TENANT)
      | Some t \<Rightarrow>
     (case x SERVICE_PRINCIPAL_TENANT of
        None \<Rightarrow> Inl (KeyError SERVICE_PRINCIPAL_TENANT)
      | Some u \<Rightarrow>
          (case select_same_principal sp_entry xs of
             Inl e \<Rightarrow> Inl e
           | Inr ys \<Rightarrow> Inr (if t = u then x # ys else ys))))))"

subsection \<open>The public operations of MsalSecretStore\<close>

text \<open>
  \<open>cred.get('secret', None) or cred.get('certificateFile', None)\<close>: the secret when it
  is present and not the empty string, else whatever \<open>get\<close> gives for the certificate.
\<close>

definition secret_or_certificate :: "entry \<Rightarrow> string option" where
  "secret_or_certificate cred =
     (if truthy (cred SERVICE_PRINCIPAL_SECRET) then cred SERVICE_PRINCIPAL_SECRET
      else cred SERVICE_PRINCIPAL_CERT_FILE)"

definition retrieve_secret_of_service_principal ::
  "string \<Rightarrow> string \<Rightarrow> world \<Rightarrow> (error + string option) \<times> world" where
  "retrieve_secret_of_service_principal sp_id tenant w =
     (case load_cached_creds w of
        (Inl e, w1) \<Rightarrow> (Inl e, w1)
      | (Inr _, w1) \<Rightarrow>
     (case select_by SERVICE_PRINCIPAL_ID sp_id (service_principal_creds w1) of
        Inl e \<Rightarrow> (Inl e, w1)
      | Inr [] \<Rightarrow> (Inl (CLIError (CouldNotRetrieve sp_id)), w1)
      | Inr (m # ms) \<Rightarrow>
     (case select_by SERVICE_PRINCIPAL_TENANT tenant (m # ms) of
        Inl e \<Rightarrow> (Inl e, w1)
      | Inr (c # cs) \<Rightarrow> (Inr (secret_or_certificate c), w1)
      | Inr [] \<Rightarrow>
          (case m SERVICE_PRINCIPAL_TENANT of
             None \<Rightarrow> (Inl (KeyError SERVICE_PRINCIPAL_TENANT), w1)
           | Some t \<Rightarrow>
               (Inr (secret_or_certificate m), emit (Log (CrossTenant sp_id tenant t)) w1)))))"

definition save_service_principal_cred :: "entry \<Rightarrow> world \<Rightarrow> (error + unit) \<times> world" where
  "save_service_principal_cred sp_entry w =
     (case load_cached_creds w of
        (Inl e, w1) \<Rightarrow> (Inl e, w1)
      | (Inr _, w1) \<Rightarrow>
     (case select_same_principal sp_entry (service_principal_creds w1) of
        Inl e \<Rightarrow> (Inl e, w1)
      | Inr [] \<Rightarrow>
          persist_cached_creds
            (w1\<lparr>service_principal_creds := service_principal_creds w1 @ [sp_entry]\<rparr>)
      | Inr (m # ms) \<Rightarrow>
          if sp_entry ACCESS_TOKEN \<noteq> m ACCESS_TOKEN
             \<or> sp_entry SERVICE_PRINCIPAL_CERT_FILE \<noteq> m SERVICE_PRINCIPAL_CERT_FILE
          then persist_cached_creds
                 (w1\<lparr>service_principal_creds :=
                        remove1 m (service_principal_creds w1) @ [sp_entry]\<rparr>)
          else (Inr (), w1)))"

definition remove_cached_creds :: "string \<Rightarrow> world \<Rightarrow> (error + unit) \<times> world" where
  "remove_cached_creds user_or_sp w =
     (case load_cached_creds w of
        (Inl e, w1) \<Rightarrow> (Inl e, w1)
      | (Inr _, w1) \<Rightarrow>
     (case select_by SERVICE_PRINCIPAL_ID user_or_sp (service_principal_creds w1) of
        Inl e \<Rightarrow> (Inl e, w1)
      | Inr [] \<Rightarrow> (Inr (), w1)
      | Inr (m # ms) \<Rightarrow>
          persist_cached_creds
            (w1\<lparr>service_principal_creds :=
                   filter (\<lambda>x. x \<notin> set (m # ms)) (service_principal_creds w1)\<rparr>)))"

text \<open>
  \<open>os.remove(self._token_file)\<close> with FileNotFoundError swallowed; any other OSError
  (here: a token file that cannot be deleted) propagates. The in-memory list stays as
  it is.
\<close>

definition remove_all_cached_creds :: "world \<Rightarrow> (error + unit) \<times> world" where
  "remove_all_cached_creds w =
     (let w1 = emit Remove w
      in case backing w1 of
           Absent \<Rightarrow> (Inr (), w1)
         | _ \<Rightarrow> if storage_writable w1 then (Inr (), w1\<lparr>backing := Absent\<rparr>)
                else (Inl OSError, w1))"

section \<open>Migration of the legacy token cache\<close>

text \<open>
  \<open>Identity.migrate_tokens\<close>. After its first warning the function evaluates
  \<open>AdalCredentialCache()._load_tokens_from_file()\<close>. The module neither imports nor
  defines the name \<open>AdalCredentialCache\<close>, so looking it up raises NameError: the
  expression never yields a list of entries.
\<close>

definition AdalCredentialCache_load_tokens_from_file :: "error + entry list" where
  "AdalCredentialCache_load_tokens_from_file = Inl (NameError ''AdalCredentialCache'')"

text \<open>
  The body of the \<open>try\<close> block for one entry. An entry with the key \<open>userId\<close> is a user
  account: the code reads \<open>_authority\<close>, \<open>resource\<close> and \<open>refreshToken\<close> by subscript and
  then calls \<open>self._build_persistent_msal_app(authority)\<close>, a method declared with no
  parameter besides \<open>self\<close>, which raises TypeError; the statements after that call are
  never reached. Any other entry is a service principal: the logger call reads
  \<open>servicePrincipalId\<close> and \<open>servicePrincipalTenant\<close> by subscript and the entry is
  handed to the secret store as it is.
\<close>

definition migrate_entry :: "entry \<Rightarrow> world \<Rightarrow> (error + unit) \<times> world" where
  "migrate_entry entry w =
     (case entry ''userId'' of
        Some username \<Rightarrow>
          (case entry ''_authority'' of
             None \<Rightarrow> (Inl (KeyError ''_authority''), w)
           | Some authority \<Rightarrow>
          (case entry ''resource'' of
             None \<Rightarrow> (Inl (KeyError ''resource''), w)
           | Some resource \<Rightarrow>
          (case entry ''refreshToken'' of
             None \<Rightarrow> (Inl (KeyError ''refreshToken''), w)
           | Some refresh_token \<Rightarrow> (Inl TypeError, w))))
      | None \<Rightarrow>
          (case entry ''servicePrincipalId'' of
             None \<Rightarrow> (Inl (KeyError ''servicePrincipalId''), w)
           | Some i \<Rightarrow>
          (case entry ''servicePrincipalTenant'' of
             None \<Rightarrow> (Inl (KeyError ''servicePrincipalTenant''), w)
           | Some t \<Rightarrow>
               save_service_principal_cred entry
                 (emit (Log (MigratingServicePrincipal i t)) w))))"

text \<open>The \<open>for\<close> loop: \<open>except CLIError: continue\<close>, every other exception leaves the loop.\<close>

fun migrate_loop :: "entry list \<Rightarrow> world \<Rightarrow> (error + unit) \<times> world" where
  "migrate_loop [] w = (Inr (), w)"
| "migrate_loop (entry # rest) w =
     (case migrate_entry entry w of
        (Inl (CLIError m), w1) \<Rightarrow> migrate_loop rest w1
      | (Inl e, w1) \<Rightarrow> (Inl e, w1)
      | (Inr u, w1) \<Rightarrow> migrate_loop rest w1)"

text \<open>
  The function itself: the warning, the load of the legacy entries, whose exception
  is not handled here, the early return on no entries, and the loop.
\<close>

definition migrate_tokens :: "world \<Rightarrow> (error + unit) \<times> world" where
  "migrate_tokens w =
     (let w1 = emit (Log MigratingTokenCache) w
      in case AdalCredentialCache_load_tokens_from_file of
           Inl e \<Rightarrow> (Inl e, w1)
         | Inr entries \<Rightarrow>
             if entries = [] then (Inr (), emit (Log NoAdalTokenCache) w1)
             else migrate_loop entries w1)"

section \<open>Properties of states and traces\<close>

text \<open>The pair (principal id, tenant) of an entry, and its uniqueness in a list.\<close>

definition principal_key :: "entry \<Rightarrow> string option \<times> string option" where
  "principal_key x = (x SERVICE_PRINCIPAL_ID, x SERVICE_PRINCIPAL_TENANT)"

definition unique_principals :: "entry list \<Rightarrow> bool" where
  "unique_principals xs = distinct (map principal_key xs)"

text \<open>
  The store is observed in two places: the list in memory and the list the backend holds.
\<close>

definition store_unique :: "world \<Rightarrow> bool" where
  "store_unique w =
     (unique_principals (service_principal_creds w) \<and>
      (case backing w of Content cs \<Rightarrow> unique_principals cs | _ \<Rightarrow> True))"

text \<open>
  The list an operation works on after \<open>_load_cached_creds\<close>: what the backend holds,
  or the list in memory when the backend holds nothing.
\<close>

definition loaded_creds :: "world \<Rightarrow> entry list" where
  "loaded_creds w =
     (case backing w of Content cs \<Rightarrow> cs | _ \<Rightarrow> service_principal_creds w)"

definition has_key :: "string \<Rightarrow> entry \<Rightarrow> bool" where
  "has_key k x = (x k \<noteq> None)"

definition well_formed :: "entry \<Rightarrow> bool" where
  "well_formed x = (has_key SERVICE_PRINCIPAL_ID x \<and> has_key SERVICE_PRINCIPAL_TENANT x)"

text \<open>A backend can be built: every case of \<open>_build_persistence\<close> but the re-raise.\<close>

definition backend_usable :: "world \<Rightarrow> bool" where
  "backend_usable w =
     (startswith (platform w) ''win'' \<or> startswith (platform w) ''darwin'' \<or>
      \<not> startswith (platform w) ''linux'' \<or> libsecret_available w \<or> fallback_to_plaintext w)"

text \<open>The number of calls of \<open>persistence.save\<close> in a trace.\<close>

definition backend_writes :: "event list \<Rightarrow> nat" where
  "backend_writes es = count_list es Save"

text \<open>
  A trace in which the lock is taken once, at the start, and given back once, at the
  end, when log messages are left aside.
\<close>

definition not_log :: "event \<Rightarrow> bool" where
  "not_log ev = (case ev of Log m \<Rightarrow> False | _ \<Rightarrow> True)"

definition single_lock_scope :: "event list \<Rightarrow> bool" where
  "single_lock_scope es =
     (case filter not_log es of
        [] \<Rightarrow> True
      | ev # rest \<Rightarrow>
          ev = Acquire \<and> rest \<noteq> [] \<and> last rest = Release \<and>
          Acquire \<notin> set (butlast rest) \<and> Release \<notin> set (butlast rest))"

text \<open>
  A trace made of log messages and of lock scopes that each hold exactly one call of
  the backend, a load or a save.
\<close>

fun one_access_per_scope :: "event list \<Rightarrow> bool" where
  "one_access_per_scope [] = True"
| "one_access_per_scope (Log m # es) = one_access_per_scope es"
| "one_access_per_scope (Acquire # Load # Release # es) = one_access_per_scope es"
| "one_access_per_scope (Acquire # Save # Release # es) = one_access_per_scope es"
| "one_access_per_scope es = False"

text \<open>
  Whether \<open>save_service_principal_cred\<close> goes on to \<open>_persist_cached_creds\<close> for the
  entry \<open>e\<close> once the list \<open>xs\<close> is loaded: its \<open>state_changed\<close> flag.
\<close>

definition wants_write :: "entry \<Rightarrow> entry list \<Rightarrow> bool" where
  "wants_write e xs =
     (case select_same_principal e xs of
        Inl err \<Rightarrow> False
      | Inr [] \<Rightarrow> True
      | Inr (m # ms) \<Rightarrow> e ACCESS_TOKEN \<noteq> m ACCESS_TOKEN \<or>
                       e SERVICE_PRINCIPAL_CERT_FILE \<noteq> m SERVICE_PRINCIPAL_CERT_FILE)"

text \<open>The events between the state \<open>w\<close> and a later state \<open>w'\<close>.\<close>

definition emitted :: "world \<Rightarrow> world \<Rightarrow> event list" where
  "emitted w w' = drop (length (trace w)) (trace w')"

section \<open>Scenario data\<close>

text \<open>
  The entries that a login of service principal \<open>sp1\<close> under tenant \<open>t1\<close> with the secret
  \<open>abc\<close> persists: in the current format and in the legacy one.
\<close>

definition sp1_t1_abc :: entry where
  "sp1_t1_abc = get_entry_to_persist
     \<lparr>client_id = ''sp1'', tenant_id = ''t1'', secret = Some ''abc'',
      certificate_file = None, thumbprint = None\<rparr>"

definition sp1_t1_legacy :: entry where
  "sp1_t1_legacy = get_entry_to_persist_legacy
     \<lparr>client_id = ''sp1'', tenant_id = ''t1'', secret = Some ''abc'',
      certificate_file = None, thumbprint = None\<rparr>"

text \<open>The entry of a second login of the same principal and tenant with the secret \<open>xyz\<close>.\<close>

definition sp1_t1_xyz :: entry where
  "sp1_t1_xyz = get_entry_to_persist
     \<lparr>client_id = ''sp1'', tenant_id = ''t1'', secret = Some ''xyz'',
      certificate_file = None, thumbprint = None\<rparr>"

section \<open>Auxiliary facts\<close>

subsection \<open>Unfolding the model on concrete states\<close>

lemmas key_defs = SERVICE_PRINCIPAL_ID_def SERVICE_PRINCIPAL_TENANT_def ACCESS_TOKEN_def
  SERVICE_PRINCIPAL_SECRET_def SERVICE_PRINCIPAL_CERT_FILE_def SERVICE_PRINCIPAL_CERT_THUMBPRINT_def

lemmas eval_defs = MsalSecretStore_init_def loaded_creds_def backend_usable_def startswith_def
  well_formed_def has_key_def get_entry_to_persist_def get_entry_to_persist_legacy_def
  secret_or_certificate_def truthy_def load_cached_creds_def build_persistence_def emit_def
  persist_cached_creds_def

lemmas op_defs = retrieve_secret_of_service_principal_def save_service_principal_cred_def
  remove_cached_creds_def remove_all_cached_creds_def

subsection \<open>The list comprehensions\<close>

lemma select_by_wf:
  "\<forall>x\<in>set xs. x k \<noteq> None \<Longrightarrow> select_by k v xs = Inr (filter (\<lambda>x. x k = Some v) xs)"
  by (induction xs) auto

lemma select_by_Inr:
  "select_by k v xs = Inr ys \<Longrightarrow> ys = filter (\<lambda>x. x k = Some v) xs \<and> (\<forall>x\<in>set xs. x k \<noteq> None)"
  by (induction xs arbitrary: ys) (auto split: option.splits sum.splits if_splits)

lemma select_by_Inl:
  "select_by k v xs = Inl e \<Longrightarrow> e = KeyError k"
  by (induction xs) (auto split: option.splits sum.splits)

lemma select_same_principal_Inr:
  "select_same_principal e xs = Inr ys \<Longrightarrow> ys = filter (\<lambda>x. principal_key x = principal_key e) xs"
  by (induction xs arbitrary: ys)
     (auto simp: principal_key_def split: option.splits sum.splits if_splits)

lemma select_same_principal_wf:
  "well_formed e \<Longrightarrow> \<forall>x\<in>set xs. well_formed x \<Longrightarrow>
   select_same_principal e xs = Inr (filter (\<lambda>x. principal_key x = principal_key e) xs)"
  by (induction xs) (auto simp: principal_key_def well_formed_def has_key_def split: option.splits)

subsection \<open>Platform names\<close>

lemma startswith_take:
  assumes "startswith s p" and "n \<le> length p"
  shows "take n s = take n p"
proof -
  have "take n p = take n (take (length p) s)"
    using assms(1) by (simp add: startswith_def)
  also have "\<dots> = take n s"
    using assms(2) by (simp add: min_def)
  finally show ?thesis by simp
qed

lemma darwin_not_win: "startswith p ''darwin'' \<Longrightarrow> \<not> startswith p ''win''"
  using startswith_take [of p "''darwin''" "length ''win''"] by (auto simp: startswith_def)

lemma linux_not_win: "startswith p ''linux'' \<Longrightarrow> \<not> startswith p ''win''"
  using startswith_take [of p "''linux''" "length ''win''"] by (auto simp: startswith_def)

lemma linux_not_darwin: "startswith p ''linux'' \<Longrightarrow> \<not> startswith p ''darwin''"
  using startswith_take [of p "''linux''" 1] startswith_take [of p "''darwin''" 1] by auto

lemma build_persistence_usable:
  assumes "backend_usable w"
  shows "\<exists>p es0. build_persistence w = (Inr p, w\<lparr>trace := trace w @ es0\<rparr>) \<and>
                 (es0 = [] \<or> es0 = [Log EncryptionUnavailable])"
proof (cases "startswith (platform w) ''linux'' \<and> \<not> libsecret_available w")
  case True
  then have "build_persistence w =
      (Inr FilePersistence, w\<lparr>trace := trace w @ [Log EncryptionUnavailable]\<rparr>)"
    using assms linux_not_win [of "platform w"] linux_not_darwin [of "platform w"]
    by (simp add: build_persistence_def backend_usable_def emit_def)
  then show ?thesis by blast
next
  case False
  then have "\<exists>p. build_persistence w = (Inr p, w\<lparr>trace := trace w @ []\<rparr>)"
    by (auto simp: build_persistence_def)
  then show ?thesis by blast
qed

subsection \<open>Loading and persisting\<close>

lemma load_cached_creds_ok:
  "(fst (load_cached_creds w) = Inr ()) = (backend_usable w \<and> backing w \<noteq> Undecodable)"
  by (auto simp: load_cached_creds_def build_persistence_def backend_usable_def emit_def Let_def
           split: artifact.splits)

lemma load_cached_creds_err:
  "fst (load_cached_creds w) = Inl e \<Longrightarrow> e = PersistenceError \<or> e = CLIError FailedToLoad"
  by (auto simp: load_cached_creds_def build_persistence_def emit_def Let_def
           split: artifact.splits if_splits)

lemma load_cached_creds_shape:
  "\<exists>es. snd (load_cached_creds w) =
          w\<lparr>service_principal_creds :=
               (if fst (load_cached_creds w) = Inr () then loaded_creds w
                else service_principal_creds w),
            trace := trace w @ es\<rparr> \<and>
        one_access_per_scope es \<and> backend_writes es = 0"
proof (cases "backend_usable w")
  case False
  then have "load_cached_creds w = (Inl PersistenceError, w)"
    by (auto simp: load_cached_creds_def build_persistence_def backend_usable_def)
  then have "snd (load_cached_creds w) =
          w\<lparr>service_principal_creds :=
               (if fst (load_cached_creds w) = Inr () then loaded_creds w
                else service_principal_creds w),
            trace := trace w @ []\<rparr> \<and>
        one_access_per_scope [] \<and> backend_writes [] = 0"
    by (simp add: backend_writes_def)
  then show ?thesis by blast
next
  case True
  then obtain p es0 where bp: "build_persistence w = (Inr p, w\<lparr>trace := trace w @ es0\<rparr>)"
    and es0: "es0 = [] \<or> es0 = [Log EncryptionUnavailable]"
    using build_persistence_usable by blast
  let ?es = "es0 @ [Acquire, Load, Release]"
  have "snd (load_cached_creds w) =
          w\<lparr>service_principal_creds :=
               (if fst (load_cached_creds w) = Inr () then loaded_creds w
                else service_principal_creds w),
            trace := trace w @ ?es\<rparr>"
    using bp by (cases "backing w") (simp_all add: load_cached_creds_def emit_def loaded_creds_def Let_def)
  moreover have "one_access_per_scope ?es \<and> backend_writes ?es = 0"
    using es0 by (auto simp: backend_writes_def)
  ultimately show ?thesis by blast
qed

lemma persist_cached_creds_ok:
  "(fst (persist_cached_creds w) = Inr ()) = (backend_usable w \<and> storage_writable w)"
  by (auto simp: persist_cached_creds_def build_persistence_def backend_usable_def emit_def Let_def)

lemma persist_cached_creds_shape:
  "\<exists>es. snd (persist_cached_creds w) =
          w\<lparr>backing :=
               (if fst (persist_cached_creds w) = Inr () then Content (service_principal_creds w)
                else backing w),
            trace := trace w @ es\<rparr> \<and>
        one_access_per_scope es \<and> backend_writes es = (if backend_usable w then 1 else 0)"
proof (cases "backend_usable w")
  case False
  then have "persist_cached_creds w = (Inl PersistenceError, w)"
    by (auto simp: persist_cached_creds_def build_persistence_def backend_usable_def)
  then have "snd (persist_cached_creds w) =
          w\<lparr>backing :=
               (if fst (persist_cached_creds w) = Inr () then Content (service_principal_creds w)
                else backing w),
            trace := trace w @ []\<rparr> \<and>
        one_access_per_scope [] \<and> backend_writes [] = (if backend_usable w then 1 else 0)"
    using False by (simp add: backend_writes_def)
  then show ?thesis by blast
next
  case True
  then obtain p es0 where bp: "build_persistence w = (Inr p, w\<lparr>trace := trace w @ es0\<rparr>)"
    and es0: "es0 = [] \<or> es0 = [Log EncryptionUnavailable]"
    using build_persistence_usable by blast
  let ?es = "es0 @ [Acquire, Save, Release]"
  have "snd (persist_cached_creds w) =
          w\<lparr>backing :=
               (if fst (persist_cached_creds w) = Inr () then Content (service_principal_creds w)
                else backing w),
            trace := trace w @ ?es\<rparr>"
    using bp by (simp add: persist_cached_creds_def emit_def Let_def)
  moreover have "one_access_per_scope ?es \<and> backend_writes ?es = (if backend_usable w then 1 else 0)"
    using es0 True by (auto simp: backend_writes_def)
  ultimately show ?thesis by blast
qed

lemma load_cached_creds_creds:
  "fst (load_cached_creds w) = Inr () \<Longrightarrow>
   service_principal_creds (snd (load_cached_creds w)) = loaded_creds w"
  using load_cached_creds_shape [of w] by auto

lemma load_cached_creds_env:
  "platform (snd (load_cached_creds w)) = platform w"
  "libsecret_available (snd (load_cached_creds w)) = libsecret_available w"
  "fallback_to_plaintext (snd (load_cached_creds w)) = fallback_to_plaintext w"
  "storage_writable (snd (load_cached_creds w)) = storage_writable w"
  "backing (snd (load_cached_creds w)) = backing w"
  using load_cached_creds_shape [of w] by auto

lemma load_cached_creds_loaded:
  "loaded_creds (snd (load_cached_creds w)) = loaded_creds w"
  using load_cached_creds_shape [of w] by (auto simp: loaded_creds_def split: artifact.splits)

lemma load_cached_creds_usable:
  "backend_usable (snd (load_cached_creds w)) = backend_usable w"
  by (simp add: backend_usable_def load_cached_creds_env)

subsection \<open>Retrieval\<close>

lemma retrieve_result:
  assumes "fst (load_cached_creds w) = Inr ()"
  shows "fst (retrieve_secret_of_service_principal sp_id tenant w) =
     (case select_by SERVICE_PRINCIPAL_ID sp_id (loaded_creds w) of
        Inl e \<Rightarrow> Inl e
      | Inr [] \<Rightarrow> Inl (CLIError (CouldNotRetrieve sp_id))
      | Inr (m # ms) \<Rightarrow>
     (case select_by SERVICE_PRINCIPAL_TENANT tenant (m # ms) of
        Inl e \<Rightarrow> Inl e
      | Inr (c # cs) \<Rightarrow> Inr (secret_or_certificate c)
      | Inr [] \<Rightarrow>
          (case m SERVICE_PRINCIPAL_TENANT of
             None \<Rightarrow> Inl (KeyError SERVICE_PRINCIPAL_TENANT)
           | Some t \<Rightarrow> Inr (secret_or_certificate m))))"
proof -
  obtain w1 where l: "load_cached_creds w = (Inr (), w1)"
    using assms by (cases "load_cached_creds w") auto
  then have "service_principal_creds w1 = loaded_creds w"
    using load_cached_creds_creds [of w] by simp
  then show ?thesis using l
    by (simp add: retrieve_secret_of_service_principal_def
             split: sum.splits list.splits option.splits)
qed

lemma retrieve_trace:
  assumes "fst (load_cached_creds w) = Inr ()"
  shows "trace (snd (retrieve_secret_of_service_principal sp_id tenant w)) =
     trace (snd (load_cached_creds w)) @
     (case select_by SERVICE_PRINCIPAL_ID sp_id (loaded_creds w) of
        Inr (m # ms) \<Rightarrow>
          (case (select_by SERVICE_PRINCIPAL_TENANT tenant (m # ms), m SERVICE_PRINCIPAL_TENANT) of
             (Inr [], Some t) \<Rightarrow> [Log (CrossTenant sp_id tenant t)]
           | _ \<Rightarrow> [])
      | _ \<Rightarrow> [])"
proof -
  obtain w1 where l: "load_cached_creds w = (Inr (), w1)"
    using assms by (cases "load_cached_creds w") auto
  then have "service_principal_creds w1 = loaded_creds w"
    using load_cached_creds_creds [of w] by simp
  then show ?thesis using l
    by (simp add: retrieve_secret_of_service_principal_def emit_def
             split: sum.splits list.splits option.splits)
qed

lemma load_ok_intro:
  "backend_usable w \<Longrightarrow> backing w \<noteq> Undecodable \<Longrightarrow> fst (load_cached_creds w) = Inr ()"
  by (simp add: load_cached_creds_ok)

lemma retrieve_well_formed:
  assumes "backend_usable w" and "backing w \<noteq> Undecodable"
    and "\<forall>x\<in>set (loaded_creds w). well_formed x"
    and "filter (\<lambda>x. x SERVICE_PRINCIPAL_ID = Some sp_id) (loaded_creds w) = m # ms"
  shows "((\<forall>x\<in>set (m # ms). x SERVICE_PRINCIPAL_TENANT \<noteq> Some tenant) \<longrightarrow>
            fst (retrieve_secret_of_service_principal sp_id tenant w) = Inr (secret_or_certificate m) \<and>
            (\<exists>t. m SERVICE_PRINCIPAL_TENANT = Some t \<and>
                 trace (snd (retrieve_secret_of_service_principal sp_id tenant w)) =
                 trace (snd (load_cached_creds w)) @ [Log (CrossTenant sp_id tenant t)])) \<and>
         (\<forall>c cs. filter (\<lambda>x. x SERVICE_PRINCIPAL_TENANT = Some tenant) (m # ms) = c # cs \<longrightarrow>
            fst (retrieve_secret_of_service_principal sp_id tenant w) = Inr (secret_or_certificate c) \<and>
            trace (snd (retrieve_secret_of_service_principal sp_id tenant w)) =
            trace (snd (load_cached_creds w)))"
proof -
  have ok: "fst (load_cached_creds w) = Inr ()"
    using assms(1,2) by (rule load_ok_intro)
  have ids: "\<forall>x\<in>set (loaded_creds w). x SERVICE_PRINCIPAL_ID \<noteq> None"
    using assms(3) by (simp add: well_formed_def has_key_def)
  have sel: "select_by SERVICE_PRINCIPAL_ID sp_id (loaded_creds w) = Inr (m # ms)"
    using select_by_wf [OF ids, of sp_id] assms(4) by simp
  have "set (m # ms) \<subseteq> set (loaded_creds w)"
    using assms(4) by (metis filter_is_subset)
  then have tens: "\<forall>x\<in>set (m # ms). x SERVICE_PRINCIPAL_TENANT \<noteq> None"
    using assms(3) by (auto simp: well_formed_def has_key_def)
  have selt: "select_by SERVICE_PRINCIPAL_TENANT tenant (m # ms) =
      Inr (filter (\<lambda>x. x SERVICE_PRINCIPAL_TENANT = Some tenant) (m # ms))"
    using select_by_wf [OF tens] .
  obtain t where t: "m SERVICE_PRINCIPAL_TENANT = Some t"
    using tens by auto
  have none: "(\<forall>x\<in>set (m # ms). x SERVICE_PRINCIPAL_TENANT \<noteq> Some tenant) \<Longrightarrow>
      filter (\<lambda>x. x SERVICE_PRINCIPAL_TENANT = Some tenant) (m # ms) = []"
    by (simp add: filter_empty_conv)
  show ?thesis
    using retrieve_result [OF ok, of sp_id tenant] retrieve_trace [OF ok, of sp_id tenant]
      sel selt t none
    by (auto split: list.splits)
qed

subsection \<open>The cases of saving and removing\<close>

lemma backend_writes_append:
  "backend_writes (xs @ ys) = backend_writes xs + backend_writes ys"
  by (induction xs) (auto simp: backend_writes_def)

lemma one_access_per_scope_append:
  "one_access_per_scope xs \<Longrightarrow> one_access_per_scope ys \<Longrightarrow> one_access_per_scope (xs @ ys)"
  by (induction xs rule: one_access_per_scope.induct) auto

lemma load_cached_creds_Inl:
  "fst (load_cached_creds w) \<noteq> Inr () \<Longrightarrow> \<exists>err. fst (load_cached_creds w) = Inl err"
  by (cases "fst (load_cached_creds w)") auto

lemma save_cases [case_names load_fail key_error append replace keep]:
  obtains
    err where "fst (load_cached_creds w) = Inl err"
      and "save_service_principal_cred e w = (Inl err, snd (load_cached_creds w))"
  | err where "fst (load_cached_creds w) = Inr ()"
      and "select_same_principal e (loaded_creds w) = Inl err"
      and "save_service_principal_cred e w = (Inl err, snd (load_cached_creds w))"
  | "fst (load_cached_creds w) = Inr ()"
      and "select_same_principal e (loaded_creds w) = Inr []"
      and "save_service_principal_cred e w =
           persist_cached_creds
             ((snd (load_cached_creds w))\<lparr>service_principal_creds := loaded_creds w @ [e]\<rparr>)"
  | m ms where "fst (load_cached_creds w) = Inr ()"
      and "select_same_principal e (loaded_creds w) = Inr (m # ms)"
      and "e ACCESS_TOKEN \<noteq> m ACCESS_TOKEN \<or>
           e SERVICE_PRINCIPAL_CERT_FILE \<noteq> m SERVICE_PRINCIPAL_CERT_FILE"
      and "save_service_principal_cred e w =
           persist_cached_creds
             ((snd (load_cached_creds w))\<lparr>service_principal_creds :=
                                            remove1 m (loaded_creds w) @ [e]\<rparr>)"
  | m ms where "fst (load_cached_creds w) = Inr ()"
      and "select_same_principal e (loaded_creds w) = Inr (m # ms)"
      and "e ACCESS_TOKEN = m ACCESS_TOKEN"
      and "e SERVICE_PRINCIPAL_CERT_FILE = m SERVICE_PRINCIPAL_CERT_FILE"
      and "save_service_principal_cred e w = (Inr (), snd (load_cached_creds w))"
proof (cases "fst (load_cached_creds w) = Inr ()")
  case False
  then obtain err where "fst (load_cached_creds w) = Inl err"
    using load_cached_creds_Inl by blast
  moreover from this have "save_service_principal_cred e w = (Inl err, snd (load_cached_creds w))"
    by (cases "load_cached_creds w") (simp add: save_service_principal_cred_def)
  ultimately show ?thesis using that(1) by blast
next
  case True
  then obtain w1 where l: "load_cached_creds w = (Inr (), w1)"
    by (cases "load_cached_creds w") auto
  have c: "service_principal_creds w1 = loaded_creds w"
    using load_cached_creds_creds [OF True] l by simp
  show ?thesis
  proof (cases "select_same_principal e (loaded_creds w)")
    case (Inl err)
    then have "save_service_principal_cred e w = (Inl err, snd (load_cached_creds w))"
      using l c by (simp add: save_service_principal_cred_def)
    with True Inl show ?thesis using that(2) by blast
  next
    case (Inr ys)
    show ?thesis
    proof (cases ys)
      case Nil
      then have "save_service_principal_cred e w =
           persist_cached_creds
             ((snd (load_cached_creds w))\<lparr>service_principal_creds := loaded_creds w @ [e]\<rparr>)"
        using l c Inr by (simp add: save_service_principal_cred_def)
      with True Inr Nil show ?thesis using that(3) by blast
    next
      case (Cons m ms)
      show ?thesis
      proof (cases "e ACCESS_TOKEN \<noteq> m ACCESS_TOKEN \<or>
           e SERVICE_PRINCIPAL_CERT_FILE \<noteq> m SERVICE_PRINCIPAL_CERT_FILE")
        case changed: True
        then have "save_service_principal_cred e w =
           persist_cached_creds
             ((snd (load_cached_creds w))\<lparr>service_principal_creds :=
                                            remove1 m (loaded_creds w) @ [e]\<rparr>)"
          using l c Inr Cons by (simp add: save_service_principal_cred_def)
        with True Inr Cons changed show ?thesis using that(4) by blast
      next
        case same: False
        then have "save_service_principal_cred e w = (Inr (), snd (load_cached_creds w))"
          using l c Inr Cons by (simp add: save_service_principal_cred_def)
        with True Inr Cons same show ?thesis using that(5) by blast
      qed
    qed
  qed
qed

lemma remove_cases [case_names load_fail key_error none some]:
  obtains
    err where "fst (load_cached_creds w) = Inl err"
      and "remove_cached_creds p w = (Inl err, snd (load_cached_creds w))"
  | err where "fst (load_cached_creds w) = Inr ()"
      and "select_by SERVICE_PRINCIPAL_ID p (loaded_creds w) = Inl err"
      and "remove_cached_creds p w = (Inl err, snd (load_cached_creds w))"
  | "fst (load_cached_creds w) = Inr ()"
      and "select_by SERVICE_PRINCIPAL_ID p (loaded_creds w) = Inr []"
      and "remove_cached_creds p w = (Inr (), snd (load_cached_creds w))"
  | m ms where "fst (load_cached_creds w) = Inr ()"
      and "select_by SERVICE_PRINCIPAL_ID p (loaded_creds w) = Inr (m # ms)"
      and "remove_cached_creds p w =
           persist_cached_creds
             ((snd (load_cached_creds w))\<lparr>service_principal_creds :=
                filter (\<lambda>x. x \<notin> set (m # ms)) (loaded_creds w)\<rparr>)"
proof (cases "fst (load_cached_creds w) = Inr ()")
  case False
  then obtain err where "fst (load_cached_creds w) = Inl err"
    using load_cached_creds_Inl by blast
  moreover from this have "remove_cached_creds p w = (Inl err, snd (load_cached_creds w))"
    by (cases "load_cached_creds w") (simp add: remove_cached_creds_def)
  ultimately show ?thesis using that(1) by blast
next
  case True
  then obtain w1 where l: "load_cached_creds w = (Inr (), w1)"
    by (cases "load_cached_creds w") auto
  have c: "service_principal_creds w1 = loaded_creds w"
    using load_cached_creds_creds [OF True] l by simp
  show ?thesis
  proof (cases "select_by SERVICE_PRINCIPAL_ID p (loaded_creds w)")
    case (Inl err)
    then have "remove_cached_creds p w = (Inl err, snd (load_cached_creds w))"
      using l c by (simp add: remove_cached_creds_def)
    with True Inl show ?thesis using that(2) by blast
  next
    case (Inr ys)
    show ?thesis
    proof (cases ys)
      case Nil
      then have "remove_cached_creds p w = (Inr (), snd (load_cached_creds w))"
        using l c Inr by (simp add: remove_cached_creds_def)
      with True Inr Nil show ?thesis using that(3) by blast
    next
      case (Cons m ms)
      then have "remove_cached_creds p w =
           persist_cached_creds
             ((snd (load_cached_creds w))\<lparr>service_principal_creds :=
                filter (\<lambda>x. x \<notin> set (m # ms)) (loaded_creds w)\<rparr>)"
        using l c Inr by (simp add: remove_cached_creds_def)
      with True Inr Cons show ?thesis using that(4) by blast
    qed
  qed
qed

lemma persist_cached_creds_env:
  "platform (snd (persist_cached_creds w)) = platform w"
  "libsecret_available (snd (persist_cached_creds w)) = libsecret_available w"
  "fallback_to_plaintext (snd (persist_cached_creds w)) = fallback_to_plaintext w"
  "storage_writable (snd (persist_cached_creds w)) = storage_writable w"
  "service_principal_creds (snd (persist_cached_creds w)) = service_principal_creds w"
  using persist_cached_creds_shape [of w] by auto

lemma persist_cached_creds_backing:
  "backing (snd (persist_cached_creds w)) =
     (if fst (persist_cached_creds w) = Inr () then Content (service_principal_creds w)
      else backing w)"
  using persist_cached_creds_shape [of w] by auto

lemma persist_cached_creds_usable:
  "backend_usable (snd (persist_cached_creds w)) = backend_usable w"
  by (simp add: backend_usable_def persist_cached_creds_env)

lemma backend_usable_creds [simp]:
  "backend_usable (w\<lparr>service_principal_creds := cs\<rparr>) = backend_usable w"
  by (simp add: backend_usable_def)

lemma retrieve_not_found:
  assumes "fst (load_cached_creds w) = Inr ()"
    and "select_by SERVICE_PRINCIPAL_ID sp_id (loaded_creds w) = Inr []"
  shows "fst (retrieve_secret_of_service_principal sp_id tenant w) =
         Inl (CLIError (CouldNotRetrieve sp_id))"
  using retrieve_result [OF assms(1), of sp_id tenant] assms(2) by simp

lemma retrieve_found:
  assumes "fst (load_cached_creds w) = Inr ()"
    and "select_by SERVICE_PRINCIPAL_ID sp_id (loaded_creds w) = Inr (m # ms)"
  shows "fst (retrieve_secret_of_service_principal sp_id tenant w) \<noteq>
         Inl (CLIError (CouldNotRetrieve sp_id))"
proof (cases "select_by SERVICE_PRINCIPAL_TENANT tenant (m # ms)")
  case (Inl err)
  then have "err = KeyError SERVICE_PRINCIPAL_TENANT" by (rule select_by_Inl)
  then show ?thesis
    using retrieve_result [OF assms(1), of sp_id tenant] assms(2) Inl by simp
next
  case (Inr cs)
  then show ?thesis
    using retrieve_result [OF assms(1), of sp_id tenant] assms(2)
    by (simp split: list.splits option.splits)
qed

lemma filter_not_in_selected:
  "filter (\<lambda>x. x \<notin> set (filter P xs)) xs = filter (\<lambda>x. \<not> P x) xs"
  by (rule filter_cong) auto

lemma remove_then_retrieve:
  assumes "fst (remove_cached_creds p w) = Inr ()"
  shows "fst (retrieve_secret_of_service_principal p tenant (snd (remove_cached_creds p w))) =
         Inl (CLIError (CouldNotRetrieve p))"
proof (cases rule: remove_cases [of w p])
  case (load_fail err)
  with assms show ?thesis by simp
next
  case (key_error err)
  with assms show ?thesis by simp
next
  case none
  let ?w' = "snd (load_cached_creds w)"
  have ok: "fst (load_cached_creds ?w') = Inr ()"
    using none(1) by (simp add: load_cached_creds_ok load_cached_creds_usable load_cached_creds_env)
  have "select_by SERVICE_PRINCIPAL_ID p (loaded_creds ?w') = Inr []"
    using none(2) by (simp add: load_cached_creds_loaded)
  from retrieve_not_found [OF ok this] none(3) show ?thesis by simp
next
  case (some m ms)
  let ?F = "filter (\<lambda>x. x \<notin> set (m # ms)) (loaded_creds w)"
  let ?w1 = "(snd (load_cached_creds w))\<lparr>service_principal_creds := ?F\<rparr>"
  let ?w' = "snd (persist_cached_creds ?w1)"
  have pok: "fst (persist_cached_creds ?w1) = Inr ()"
    using assms some(3) by simp
  have b: "backing ?w' = Content ?F"
    using pok by (simp add: persist_cached_creds_backing)
  have u: "backend_usable ?w'"
    using some(1) by (simp add: persist_cached_creds_usable load_cached_creds_usable load_cached_creds_ok)
  have ok: "fst (load_cached_creds ?w') = Inr ()"
    using u b by (simp add: load_cached_creds_ok)
  have lc: "loaded_creds ?w' = ?F"
    using b by (simp add: loaded_creds_def)
  from select_by_Inr [OF some(2)]
  have sel: "m # ms = filter (\<lambda>x. x SERVICE_PRINCIPAL_ID = Some p) (loaded_creds w)"
    and ids: "\<forall>x\<in>set (loaded_creds w). x SERVICE_PRINCIPAL_ID \<noteq> None"
    by simp_all
  have F: "?F = filter (\<lambda>x. x SERVICE_PRINCIPAL_ID \<noteq> Some p) (loaded_creds w)"
    unfolding sel by (rule filter_not_in_selected)
  have "\<forall>x\<in>set ?F. x SERVICE_PRINCIPAL_ID \<noteq> None"
    using ids by simp
  from select_by_wf [OF this, of p]
  have "select_by SERVICE_PRINCIPAL_ID p ?F = Inr (filter (\<lambda>x. x SERVICE_PRINCIPAL_ID = Some p) ?F)" .
  also have "filter (\<lambda>x. x SERVICE_PRINCIPAL_ID = Some p) ?F = []"
    unfolding F by (simp add: filter_empty_conv)
  finally have "select_by SERVICE_PRINCIPAL_ID p (loaded_creds ?w') = Inr []"
    using lc by simp
  from retrieve_not_found [OF ok this] some(3) show ?thesis by simp
qed

subsection \<open>Uniqueness of principals\<close>

lemma unique_principals_append:
  assumes "unique_principals xs"
    and "filter (\<lambda>x. principal_key x = principal_key e) xs = []"
  shows "unique_principals (xs @ [e])"
proof -
  from assms(2) have "\<forall>x\<in>set xs. principal_key x \<noteq> principal_key e"
    by (simp only: filter_empty_conv) 
  then have "principal_key e \<notin> principal_key ` set xs" by auto
  with assms(1) show ?thesis by (simp add: unique_principals_def)
qed

lemma unique_principals_remove1:
  assumes "unique_principals xs"
  shows "unique_principals (remove1 m xs)"
proof -
  from assms have d: "distinct xs" and i: "inj_on principal_key (set xs)"
    by (simp_all add: unique_principals_def distinct_map)
  have "set (remove1 m xs) \<subseteq> set xs" by (rule set_remove1_subset)
  with i have "inj_on principal_key (set (remove1 m xs))" by (rule inj_on_subset)
  with d show ?thesis by (simp add: unique_principals_def distinct_map)
qed

lemma unique_principals_single_match:
  assumes "unique_principals xs"
    and "filter (\<lambda>x. principal_key x = principal_key e) xs = m # ms"
  shows "ms = [] \<and> m \<in> set xs \<and> principal_key m = principal_key e \<and>
         filter (\<lambda>x. principal_key x = principal_key e) (remove1 m xs) = []"
proof -
  from assms(1) have d: "distinct xs" and i: "inj_on principal_key (set xs)"
    by (simp_all add: unique_principals_def distinct_map)
  have mem: "\<And>x. x \<in> set (m # ms) \<Longrightarrow> x \<in> set xs \<and> principal_key x = principal_key e"
  proof -
    fix x assume "x \<in> set (m # ms)"
    then have "x \<in> set (filter (\<lambda>x. principal_key x = principal_key e) xs)"
      using assms(2) by simp
    then show "x \<in> set xs \<and> principal_key x = principal_key e" by simp
  qed
  have m: "m \<in> set xs \<and> principal_key m = principal_key e"
    using mem [of m] by simp
  have same: "\<And>x. x \<in> set xs \<Longrightarrow> principal_key x = principal_key e \<Longrightarrow> x = m"
  proof -
    fix x assume "x \<in> set xs" and "principal_key x = principal_key e"
    then have "principal_key x = principal_key m" and "x \<in> set xs" and "m \<in> set xs"
      using m by simp_all
    with i show "x = m" by (rule inj_onD)
  qed
  have "distinct (m # ms)"
    using d assms(2) by (metis distinct_filter)
  moreover have "\<forall>x\<in>set ms. x = m"
  proof
    fix x assume "x \<in> set ms"
    then have "x \<in> set (m # ms)" by simp
    from mem [OF this] show "x = m" by (simp add: same)
  qed
  ultimately have ms: "ms = []"
    by (cases ms) auto
  have "set (remove1 m xs) = set xs - {m}"
    using d by (rule set_remove1_eq)
  then have "\<forall>x\<in>set (remove1 m xs). principal_key x \<noteq> principal_key e"
    using same by blast
  then have "filter (\<lambda>x. principal_key x = principal_key e) (remove1 m xs) = []"
    by (simp only: filter_empty_conv)
  with ms m show ?thesis by simp
qed

lemma unique_principals_filter:
  "unique_principals xs \<Longrightarrow> unique_principals (filter P xs)"
  by (simp add: unique_principals_def distinct_map_filter)

lemma unique_loaded_creds: "store_unique w \<Longrightarrow> unique_principals (loaded_creds w)"
  by (auto simp: store_unique_def loaded_creds_def split: artifact.splits)

lemma store_unique_load:
  assumes "store_unique w"
  shows "store_unique (snd (load_cached_creds w))"
proof -
  obtain es where "snd (load_cached_creds w) =
          w\<lparr>service_principal_creds :=
               (if fst (load_cached_creds w) = Inr () then loaded_creds w
                else service_principal_creds w),
            trace := trace w @ es\<rparr>"
    using load_cached_creds_shape [of w] by blast
  then show ?thesis
    using assms unique_loaded_creds [OF assms] by (simp add: store_unique_def)
qed

lemma store_unique_persist:
  assumes "store_unique w"
  shows "store_unique (snd (persist_cached_creds w))"
  using assms
  by (simp add: store_unique_def persist_cached_creds_env persist_cached_creds_backing)

lemma store_unique_creds:
  "store_unique w \<Longrightarrow> unique_principals cs \<Longrightarrow>
   store_unique (w\<lparr>service_principal_creds := cs\<rparr>)"
  by (simp add: store_unique_def)

lemma store_unique_save:
  assumes "store_unique w"
  shows "store_unique (snd (save_service_principal_cred e w))"
proof -
  note l = store_unique_load [OF assms]
  note u = unique_loaded_creds [OF assms]
  show ?thesis
  proof (cases rule: save_cases [of w e])
    case (load_fail err)
    with l show ?thesis by simp
  next
    case (key_error err)
    with l show ?thesis by simp
  next
    case append
    from select_same_principal_Inr [OF append(2)]
    have "filter (\<lambda>x. principal_key x = principal_key e) (loaded_creds w) = []" by simp
    from unique_principals_append [OF u this]
    show ?thesis using append(3) l by (simp add: store_unique_persist store_unique_creds)
  next
    case (replace m ms)
    from select_same_principal_Inr [OF replace(2)]
    have "filter (\<lambda>x. principal_key x = principal_key e) (loaded_creds w) = m # ms" by simp
    from unique_principals_single_match [OF u this]
    have "filter (\<lambda>x. principal_key x = principal_key e) (remove1 m (loaded_creds w)) = []"
      by simp
    from unique_principals_append [OF unique_principals_remove1 [OF u] this]
    show ?thesis using replace(4) l by (simp add: store_unique_persist store_unique_creds)
  next
    case (keep m ms)
    with l show ?thesis by simp
  qed
qed

lemma store_unique_remove:
  assumes "store_unique w"
  shows "store_unique (snd (remove_cached_creds p w))"
proof -
  note l = store_unique_load [OF assms]
  note u = unique_loaded_creds [OF assms]
  show ?thesis
  proof (cases rule: remove_cases [of w p])
    case (load_fail err)
    with l show ?thesis by simp
  next
    case (key_error err)
    with l show ?thesis by simp
  next
    case none
    with l show ?thesis by simp
  next
    case (some m ms)
    from unique_principals_filter [OF u]
    show ?thesis using some(3) l by (simp add: store_unique_persist store_unique_creds)
  qed
qed

lemma store_unique_remove_all:
  assumes "store_unique w"
  shows "store_unique (snd (remove_all_cached_creds w))"
  using assms
  by (auto simp: store_unique_def remove_all_cached_creds_def emit_def Let_def split: artifact.splits)

subsection \<open>Counting backend writes\<close>

lemma load_cached_creds_writes:
  "backend_writes (trace (snd (load_cached_creds w))) = backend_writes (trace w)"
  using load_cached_creds_shape [of w] by (auto simp: backend_writes_append)

lemma persist_cached_creds_writes:
  "backend_writes (trace (snd (persist_cached_creds w))) =
   backend_writes (trace w) + (if backend_usable w then 1 else 0)"
  using persist_cached_creds_shape [of w] by (auto simp: backend_writes_append)

lemma load_ok_usable: "fst (load_cached_creds w) = Inr () \<Longrightarrow> backend_usable w"
  by (simp add: load_cached_creds_ok)

lemma save_writes:
  "backend_writes (trace (snd (save_service_principal_cred e w))) =
   backend_writes (trace w) +
   (if fst (load_cached_creds w) = Inr () \<and> wants_write e (loaded_creds w) then 1 else 0)"
proof (cases rule: save_cases [of w e])
  case (load_fail err)
  then show ?thesis by (simp add: load_cached_creds_writes)
next
  case (key_error err)
  then show ?thesis by (simp add: load_cached_creds_writes wants_write_def)
next
  case append
  then show ?thesis
    by (simp add: persist_cached_creds_writes load_cached_creds_writes wants_write_def
        load_cached_creds_usable load_ok_usable)
next
  case (replace m ms)
  then show ?thesis
    by (simp add: persist_cached_creds_writes load_cached_creds_writes wants_write_def
        load_cached_creds_usable load_ok_usable)
next
  case (keep m ms)
  then show ?thesis by (simp add: load_cached_creds_writes wants_write_def)
qed

lemma save_backing_quiet:
  "\<not> (fst (load_cached_creds w) = Inr () \<and> wants_write e (loaded_creds w)) \<Longrightarrow>
   backing (snd (save_service_principal_cred e w)) = backing w"
  by (cases rule: save_cases [of w e]) (auto simp: load_cached_creds_env wants_write_def)

lemma not_wants_write_appended:
  assumes "filter (\<lambda>x. principal_key x = principal_key e) xs = []"
  shows "\<not> wants_write e (xs @ [e])"
proof (cases "select_same_principal e (xs @ [e])")
  case (Inl err)
  then show ?thesis by (simp add: wants_write_def)
next
  case (Inr ys)
  from select_same_principal_Inr [OF this] assms have "ys = [e]" by simp
  with Inr show ?thesis by (simp add: wants_write_def)
qed

lemma unique_principals_same:
  assumes "unique_principals xs" and "m \<in> set xs" and "x \<in> set xs"
    and "principal_key x = principal_key m"
  shows "x = m"
proof -
  from assms(1) have "inj_on principal_key (set xs)"
    by (simp add: unique_principals_def distinct_map)
  from this assms(4,3,2) show ?thesis by (rule inj_onD)
qed

lemma not_wants_write_member:
  assumes "unique_principals xs" and "e \<in> set xs"
  shows "\<not> wants_write e xs"
proof (cases "select_same_principal e xs")
  case (Inl err)
  then show ?thesis by (simp add: wants_write_def)
next
  case (Inr ys)
  from select_same_principal_Inr [OF this]
  have ys: "ys = filter (\<lambda>x. principal_key x = principal_key e) xs" .
  with assms(2) have "e \<in> set ys" by simp
  then obtain m ms where c: "ys = m # ms" by (cases ys) auto
  from unique_principals_single_match [OF assms(1) ys [symmetric, unfolded c]]
  have "m \<in> set xs" and "principal_key m = principal_key e" by simp_all
  from unique_principals_same [OF assms(1) this(1) assms(2)] this(2)
  have "e = m" by simp
  with Inr c show ?thesis by (simp add: wants_write_def)
qed

lemma loaded_creds_after_persist:
  "fst (persist_cached_creds w) = Inr () \<Longrightarrow>
   loaded_creds (snd (persist_cached_creds w)) = service_principal_creds w"
  by (simp add: loaded_creds_def persist_cached_creds_backing)

lemma second_save_quiet:
  assumes "fst (save_service_principal_cred e w) = Inr ()"
    and "filter (\<lambda>x. principal_key x = principal_key e) (loaded_creds w) = [] \<or>
         unique_principals (loaded_creds w)"
  shows "\<not> wants_write e (loaded_creds (snd (save_service_principal_cred e w)))"
proof (cases rule: save_cases [of w e])
  case (load_fail err)
  with assms(1) show ?thesis by simp
next
  case (key_error err)
  with assms(1) show ?thesis by simp
next
  case append
  from select_same_principal_Inr [OF append(2)]
  have "filter (\<lambda>x. principal_key x = principal_key e) (loaded_creds w) = []" by simp
  from not_wants_write_appended [OF this] assms(1) append(3)
  show ?thesis by (simp add: loaded_creds_after_persist)
next
  case (replace m ms)
  from select_same_principal_Inr [OF replace(2)]
  have f: "filter (\<lambda>x. principal_key x = principal_key e) (loaded_creds w) = m # ms" by simp
  with assms(2) have "unique_principals (loaded_creds w)" by simp
  from unique_principals_single_match [OF this f]
  have "filter (\<lambda>x. principal_key x = principal_key e) (remove1 m (loaded_creds w)) = []"
    by simp
  from not_wants_write_appended [OF this] assms(1) replace(4)
  show ?thesis by (simp add: loaded_creds_after_persist)
next
  case (keep m ms)
  then show ?thesis by (simp add: load_cached_creds_loaded wants_write_def)
qed

subsection \<open>Lock scopes\<close>

lemma load_cached_creds_scopes:
  "\<exists>es. trace (snd (load_cached_creds w)) = trace w @ es \<and> one_access_per_scope es"
  using load_cached_creds_shape [of w] by auto

lemma persist_cached_creds_scopes:
  "\<exists>es. trace (snd (persist_cached_creds w)) = trace w @ es \<and> one_access_per_scope es"
  using persist_cached_creds_shape [of w] by auto

lemma load_then_persist_scopes:
  assumes "trace w1 = trace (snd (load_cached_creds w))"
  shows "\<exists>es. trace (snd (persist_cached_creds w1)) = trace w @ es \<and> one_access_per_scope es"
proof -
  obtain es1 where 1: "trace (snd (load_cached_creds w)) = trace w @ es1"
    and o1: "one_access_per_scope es1"
    using load_cached_creds_scopes by blast
  obtain es2 where 2: "trace (snd (persist_cached_creds w1)) = trace w1 @ es2"
    and o2: "one_access_per_scope es2"
    using persist_cached_creds_scopes by blast
  from 1 2 assms have "trace (snd (persist_cached_creds w1)) = trace w @ (es1 @ es2)" by simp
  moreover from o1 o2 have "one_access_per_scope (es1 @ es2)"
    by (rule one_access_per_scope_append)
  ultimately show ?thesis by blast
qed

lemma save_scopes:
  "\<exists>es. trace (snd (save_service_principal_cred e w)) = trace w @ es \<and> one_access_per_scope es"
proof (cases rule: save_cases [of w e])
  case (load_fail err)
  then show ?thesis using load_cached_creds_scopes [of w] by simp
next
  case (key_error err)
  then show ?thesis using load_cached_creds_scopes [of w] by simp
next
  case append
  then show ?thesis
    using load_then_persist_scopes
      [of "(snd (load_cached_creds w))\<lparr>service_principal_creds := loaded_creds w @ [e]\<rparr>" w]
    by simp
next
  case (replace m ms)
  then show ?thesis
    using load_then_persist_scopes
      [of "(snd (load_cached_creds w))\<lparr>service_principal_creds :=
             remove1 m (loaded_creds w) @ [e]\<rparr>" w]
    by simp
next
  case (keep m ms)
  then show ?thesis using load_cached_creds_scopes [of w] by simp
qed

lemma remove_scopes:
  "\<exists>es. trace (snd (remove_cached_creds p w)) = trace w @ es \<and> one_access_per_scope es"
proof (cases rule: remove_cases [of w p])
  case (load_fail err)
  then show ?thesis using load_cached_creds_scopes [of w] by simp
next
  case (key_error err)
  then show ?thesis using load_cached_creds_scopes [of w] by simp
next
  case none
  then show ?thesis using load_cached_creds_scopes [of w] by simp
next
  case (some m ms)
  then show ?thesis
    using load_then_persist_scopes
      [of "(snd (load_cached_creds w))\<lparr>service_principal_creds :=
             filter (\<lambda>x. x \<notin> set (m # ms)) (loaded_creds w)\<rparr>" w]
    by simp
qed

lemma retrieve_load_fail:
  "fst (load_cached_creds w) = Inl err \<Longrightarrow>
   retrieve_secret_of_service_principal sp_id tenant w = (Inl err, snd (load_cached_creds w))"
  by (cases "load_cached_creds w") (simp add: retrieve_secret_of_service_principal_def)

lemma retrieve_scopes:
  "\<exists>es. trace (snd (retrieve_secret_of_service_principal sp_id tenant w)) = trace w @ es \<and>
        one_access_per_scope es"
proof (cases "fst (load_cached_creds w) = Inr ()")
  case False
  then obtain err where "fst (load_cached_creds w) = Inl err"
    using load_cached_creds_Inl by blast
  from retrieve_load_fail [OF this] show ?thesis
    using load_cached_creds_scopes [of w] by simp
next
  case True
  obtain es1 where 1: "trace (snd (load_cached_creds w)) = trace w @ es1"
    and o1: "one_access_per_scope es1"
    using load_cached_creds_scopes by blast
  obtain es2 where 2: "trace (snd (retrieve_secret_of_service_principal sp_id tenant w)) =
      trace (snd (load_cached_creds w)) @ es2"
    and o2: "one_access_per_scope es2"
    using retrieve_trace [OF True, of sp_id tenant]
    by (auto split: sum.splits list.splits option.splits)
  from 1 2 have "trace (snd (retrieve_secret_of_service_principal sp_id tenant w)) =
      trace w @ (es1 @ es2)" by simp
  moreover from o1 o2 have "one_access_per_scope (es1 @ es2)"
    by (rule one_access_per_scope_append)
  ultimately show ?thesis by blast
qed

subsection \<open>The loop of the migration\<close>

text \<open>
  What the loop does with the first entry it is given: a user entry that carries all
  its keys ends the loop with TypeError, a service-principal entry without one of its
  two keys ends it with KeyError, and an entry whose processing raises a CLIError is
  passed over.
\<close>

lemma migrate_entry_user:
  assumes "entry ''userId'' = Some u" and "entry ''_authority'' = Some a"
    and "entry ''resource'' = Some r" and "entry ''refreshToken'' = Some t"
  shows "migrate_loop (entry # rest) w = (Inl TypeError, w)"
  using assms by (simp add: migrate_entry_def)

lemma migrate_entry_malformed:
  assumes "entry ''userId'' = None" and "\<not> well_formed entry"
  shows "migrate_loop (entry # rest) w =
     (Inl (KeyError (if entry ''servicePrincipalId'' = None then ''servicePrincipalId''
                     else ''servicePrincipalTenant'')), w)"
  using assms
  by (auto simp: migrate_entry_def well_formed_def has_key_def key_defs split: option.splits)

lemma migrate_loop_skips_cli_error:
  assumes "fst (migrate_entry entry w) = Inl (CLIError msg)"
  shows "migrate_loop (entry # rest) w = migrate_loop rest (snd (migrate_entry entry w))"
  using assms by (cases "migrate_entry entry w") simp

section \<open>The claims\<close>

subsection \<open>Last write wins\<close>

text \<open>
  C1: the scenario of the claim. After saving \<open>sp1\<close>/\<open>t1\<close> with the secret \<open>abc\<close> and
  then with the secret \<open>xyz\<close>, both saves return normally, the backend still holds the
  entry with \<open>abc\<close> alone, and retrieval gives \<open>abc\<close>: the comparison in
  \<open>save_service_principal_cred\<close> reads the key \<open>accessToken\<close>, which neither entry has,
  where \<open>get_entry_to_persist\<close> writes the key \<open>secret\<close>.
\<close>

theorem save_changed_secret_keeps_old:
  "fst (save_service_principal_cred sp1_t1_xyz
          (snd (save_service_principal_cred sp1_t1_abc
             (MsalSecretStore_init True ''win32'' False True Absent)))) = Inr () \<and>
   backing (snd (save_service_principal_cred sp1_t1_xyz
          (snd (save_service_principal_cred sp1_t1_abc
             (MsalSecretStore_init True ''win32'' False True Absent))))) = Content [sp1_t1_abc] \<and>
   fst (retrieve_secret_of_service_principal ''sp1'' ''t1''
          (snd (save_service_principal_cred sp1_t1_xyz
             (snd (save_service_principal_cred sp1_t1_abc
                (MsalSecretStore_init True ''win32'' False True Absent)))))) = Inr (Some ''abc'')"
  by (simp add: eval_defs op_defs sp1_t1_abc_def sp1_t1_xyz_def key_defs)

theorem save_changed_secret_keeps_old_witness:
  "fst (retrieve_secret_of_service_principal ''sp1'' ''t1''
          (snd (save_service_principal_cred sp1_t1_xyz
             (snd (save_service_principal_cred sp1_t1_abc
                (MsalSecretStore_init True ''win32'' False True Absent)))))) \<noteq> Inr (Some ''xyz'')"
  using save_changed_secret_keeps_old by simp

subsection \<open>Lock scopes\<close>

text \<open>
  C2 as stated asks for one lock scope around the whole load-then-save cycle. Saving a
  first entry on Windows takes the lock twice.
\<close>

theorem single_lock_scope_counterexample:
  "trace (snd (save_service_principal_cred sp1_t1_abc
            (MsalSecretStore_init True ''win32'' False True Absent))) =
     [Acquire, Load, Release, Acquire, Save, Release] \<and>
   \<not> single_lock_scope (trace (snd (save_service_principal_cred sp1_t1_abc
            (MsalSecretStore_init True ''win32'' False True Absent))))"
  by (simp add: eval_defs op_defs single_lock_scope_def not_log_def)

text \<open>
  C2, as amended: the events of \<open>retrieve_secret_of_service_principal\<close>,
  \<open>save_service_principal_cred\<close> and \<open>remove_cached_creds\<close> are, log messages aside, a
  sequence of lock scopes each holding exactly one call of the backend, a load or a
  save; this on every exit path, since the statement does not depend on the result. So
  the lock is given back after the load and taken again for the save.
\<close>

theorem lock_scope_per_backend_access:
  "one_access_per_scope (emitted w (snd (retrieve_secret_of_service_principal sp_id tenant w))) \<and>
   one_access_per_scope (emitted w (snd (save_service_principal_cred e w))) \<and>
   one_access_per_scope (emitted w (snd (remove_cached_creds sp_id w)))"
  using retrieve_scopes [of sp_id tenant w] save_scopes [of e w] remove_scopes [of sp_id w]
  by (auto simp: emitted_def)

theorem lock_scope_per_backend_access_witness:
  "one_access_per_scope (trace (snd (save_service_principal_cred sp1_t1_abc
            (MsalSecretStore_init True ''win32'' False True Absent))))"
  using lock_scope_per_backend_access
    [of "MsalSecretStore_init True ''win32'' False True Absent" "''sp1''" "''t1''" sp1_t1_abc]
  by (simp add: emitted_def MsalSecretStore_init_def)

subsection \<open>Best-effort migration\<close>

text \<open>
  C3: the claim asks that the migration raises no error, whatever the legacy cache
  holds and also when there is none. In every state \<open>migrate_tokens\<close> logs its first
  warning and then raises NameError for \<open>AdalCredentialCache\<close>: no entry is read,
  skipped or migrated, and the store is left as it was.
\<close>

theorem migrate_tokens_raises_name_error:
  "migrate_tokens w =
     (Inl (NameError ''AdalCredentialCache''), emit (Log MigratingTokenCache) w)"
  by (simp add: migrate_tokens_def AdalCredentialCache_load_tokens_from_file_def)

theorem migrate_tokens_raises_name_error_witness:
  "fst (migrate_tokens (MsalSecretStore_init True ''win32'' False True Absent)) =
     Inl (NameError ''AdalCredentialCache'') \<and>
   backing (snd (migrate_tokens (MsalSecretStore_init True ''win32'' False True Absent))) = Absent \<and>
   service_principal_creds
     (snd (migrate_tokens (MsalSecretStore_init True ''win32'' False True Absent))) = []"
  using migrate_tokens_raises_name_error [of "MsalSecretStore_init True ''win32'' False True Absent"]
  by (simp add: MsalSecretStore_init_def emit_def)

subsection \<open>Backend selection\<close>

text \<open>
  C4: backend selection is a function of the platform, of whether the secret-service
  backend can be built and of the fallback flag alone. A platform whose name starts with
  \<open>win\<close> gets the data-protection file, one that starts with \<open>darwin\<close> the keychain,
  one that starts with \<open>linux\<close> the secret service; when the secret service cannot be
  built, Linux falls back to the plain file and logs a warning if the fallback is
  allowed, and the error propagates if it is not; every other platform gets the plain
  file.
\<close>

theorem backend_selection_table:
  "(startswith (platform w) ''win'' \<longrightarrow>
      build_persistence w = (Inr FilePersistenceWithDataProtection, w)) \<and>
   (startswith (platform w) ''darwin'' \<longrightarrow>
      build_persistence w = (Inr KeychainPersistence, w)) \<and>
   (startswith (platform w) ''linux'' \<and> libsecret_available w \<longrightarrow>
      build_persistence w = (Inr LibsecretPersistence, w)) \<and>
   (startswith (platform w) ''linux'' \<and> \<not> libsecret_available w \<and> fallback_to_plaintext w \<longrightarrow>
      build_persistence w = (Inr FilePersistence, emit (Log EncryptionUnavailable) w)) \<and>
   (startswith (platform w) ''linux'' \<and> \<not> libsecret_available w \<and> \<not> fallback_to_plaintext w \<longrightarrow>
      build_persistence w = (Inl PersistenceError, w)) \<and>
   (\<not> startswith (platform w) ''win'' \<and> \<not> startswith (platform w) ''darwin'' \<and>
    \<not> startswith (platform w) ''linux'' \<longrightarrow>
      build_persistence w = (Inr FilePersistence, w)) \<and>
   (platform w = platform w' \<and> libsecret_available w = libsecret_available w' \<and>
    fallback_to_plaintext w = fallback_to_plaintext w' \<longrightarrow>
      fst (build_persistence w) = fst (build_persistence w'))"
  using darwin_not_win [of "platform w"] linux_not_win [of "platform w"]
    linux_not_darwin [of "platform w"]
  by (simp add: build_persistence_def)

theorem backend_selection_table_witness:
  "build_persistence (MsalSecretStore_init True ''linux2'' False True Absent) =
     (Inr FilePersistence,
      emit (Log EncryptionUnavailable) (MsalSecretStore_init True ''linux2'' False True Absent)) \<and>
   build_persistence (MsalSecretStore_init False ''linux2'' False True Absent) =
     (Inl PersistenceError, MsalSecretStore_init False ''linux2'' False True Absent) \<and>
   build_persistence (MsalSecretStore_init True ''freebsd13'' False True Absent) =
     (Inr FilePersistence, MsalSecretStore_init True ''freebsd13'' False True Absent) \<and>
   build_persistence (MsalSecretStore_init True ''win32'' False True Absent) =
     (Inr FilePersistenceWithDataProtection, MsalSecretStore_init True ''win32'' False True Absent)"
  using backend_selection_table [of "MsalSecretStore_init True ''linux2'' False True Absent"]
    backend_selection_table [of "MsalSecretStore_init False ''linux2'' False True Absent"]
    backend_selection_table [of "MsalSecretStore_init True ''freebsd13'' False True Absent"]
    backend_selection_table [of "MsalSecretStore_init True ''win32'' False True Absent"]
  by (simp add: MsalSecretStore_init_def startswith_def)

subsection \<open>Write avoidance\<close>

text \<open>
  C5: on a store with unique (principal id, tenant) pairs, saving an entry that is
  already stored calls \<open>persistence.save\<close> not at all and leaves the backend as it is;
  after any save that returned normally, saving the same entry again calls
  \<open>persistence.save\<close> not at all; so saving an entry of a principal and tenant not yet
  stored twice in a row makes exactly one call of \<open>persistence.save\<close>.
\<close>

theorem save_idempotent_writes:
  "(unique_principals (loaded_creds w) \<and> e \<in> set (loaded_creds w) \<longrightarrow>
      backend_writes (trace (snd (save_service_principal_cred e w))) = backend_writes (trace w) \<and>
      backing (snd (save_service_principal_cred e w)) = backing w) \<and>
   (unique_principals (loaded_creds w) \<and> fst (save_service_principal_cred e w) = Inr () \<longrightarrow>
      backend_writes (trace (snd (save_service_principal_cred e
                                   (snd (save_service_principal_cred e w))))) =
      backend_writes (trace (snd (save_service_principal_cred e w)))) \<and>
   ((\<forall>x\<in>set (loaded_creds w). principal_key x \<noteq> principal_key e) \<and>
    fst (save_service_principal_cred e w) = Inr () \<longrightarrow>
      backend_writes (trace (snd (save_service_principal_cred e
                                   (snd (save_service_principal_cred e w))))) =
      backend_writes (trace w) + 1)"
proof (intro conjI impI)
  assume a: "unique_principals (loaded_creds w) \<and> e \<in> set (loaded_creds w)"
  then have n: "\<not> wants_write e (loaded_creds w)"
    by (simp add: not_wants_write_member)
  then show "backend_writes (trace (snd (save_service_principal_cred e w))) = backend_writes (trace w)"
    by (simp add: save_writes)
  from n show "backing (snd (save_service_principal_cred e w)) = backing w"
    by (simp add: save_backing_quiet)
next
  assume a: "unique_principals (loaded_creds w) \<and> fst (save_service_principal_cred e w) = Inr ()"
  then have "\<not> wants_write e (loaded_creds (snd (save_service_principal_cred e w)))"
    by (simp add: second_save_quiet)
  then show "backend_writes (trace (snd (save_service_principal_cred e
                                   (snd (save_service_principal_cred e w))))) =
      backend_writes (trace (snd (save_service_principal_cred e w)))"
    by (simp add: save_writes [of e "snd (save_service_principal_cred e w)"])
next
  assume a: "(\<forall>x\<in>set (loaded_creds w). principal_key x \<noteq> principal_key e) \<and>
    fst (save_service_principal_cred e w) = Inr ()"
  then have f: "filter (\<lambda>x. principal_key x = principal_key e) (loaded_creds w) = []"
    by (simp add: filter_empty_conv)
  with a have "\<not> wants_write e (loaded_creds (snd (save_service_principal_cred e w)))"
    by (simp add: second_save_quiet)
  then have second: "backend_writes (trace (snd (save_service_principal_cred e
                                   (snd (save_service_principal_cred e w))))) =
      backend_writes (trace (snd (save_service_principal_cred e w)))"
    by (simp add: save_writes [of e "snd (save_service_principal_cred e w)"])
  have ok: "fst (load_cached_creds w) = Inr ()"
    using a by (cases rule: save_cases [of w e]) auto
  have "wants_write e (loaded_creds w)"
  proof (cases "select_same_principal e (loaded_creds w)")
    case (Inl err)
    with ok a show ?thesis by (cases rule: save_cases [of w e]) auto
  next
    case (Inr ys)
    from select_same_principal_Inr [OF this] f have "ys = []" by simp
    with Inr show ?thesis by (simp add: wants_write_def)
  qed
  with ok have "backend_writes (trace (snd (save_service_principal_cred e w))) =
      backend_writes (trace w) + 1"
    by (simp add: save_writes)
  with second show "backend_writes (trace (snd (save_service_principal_cred e
                                   (snd (save_service_principal_cred e w))))) =
      backend_writes (trace w) + 1" by simp
qed

theorem save_idempotent_writes_witness:
  "backend_writes (trace (snd (save_service_principal_cred sp1_t1_abc
      (snd (save_service_principal_cred sp1_t1_abc
         (MsalSecretStore_init True ''win32'' False True Absent)))))) = 1 \<and>
   backend_writes (trace (snd (save_service_principal_cred sp1_t1_abc
      (MsalSecretStore_init True ''win32'' False True (Content [sp1_t1_abc]))))) = 0"
proof -
  let ?w = "MsalSecretStore_init True ''win32'' False True Absent"
  let ?v = "MsalSecretStore_init True ''win32'' False True (Content [sp1_t1_abc])"
  have h1: "(\<forall>x\<in>set (loaded_creds ?w). principal_key x \<noteq> principal_key sp1_t1_abc) \<and>
    fst (save_service_principal_cred sp1_t1_abc ?w) = Inr ()"
    by (simp add: eval_defs op_defs)
  have h2: "unique_principals (loaded_creds ?v) \<and> sp1_t1_abc \<in> set (loaded_creds ?v)"
    by (simp add: eval_defs unique_principals_def)
  have t: "backend_writes (trace ?w) = 0" "backend_writes (trace ?v) = 0"
    by (simp_all add: MsalSecretStore_init_def backend_writes_def)
  from save_idempotent_writes [of ?w sp1_t1_abc] save_idempotent_writes [of ?v sp1_t1_abc] h1 h2 t
  show ?thesis by simp
qed

subsection \<open>Retrieval of an unknown principal\<close>

text \<open>
  C6: when the backend can be read and every stored entry carries a principal id,
  retrieval fails with the CLIError "Could not retrieve credential ... for service
  principal \<open>sp_id\<close>" exactly when no stored entry is of the principal \<open>sp_id\<close>, whatever
  the tenants are. And whenever \<open>remove_cached_creds sp_id\<close> has returned normally, a
  retrieval of \<open>sp_id\<close> under any tenant fails with that error.
\<close>

theorem retrieve_not_logged_in:
  "(backend_usable w \<and> backing w \<noteq> Undecodable \<and>
    (\<forall>x\<in>set (loaded_creds w). has_key SERVICE_PRINCIPAL_ID x) \<longrightarrow>
      (fst (retrieve_secret_of_service_principal sp_id tenant w) =
         Inl (CLIError (CouldNotRetrieve sp_id))) =
      (\<forall>x\<in>set (loaded_creds w). x SERVICE_PRINCIPAL_ID \<noteq> Some sp_id)) \<and>
   (fst (remove_cached_creds sp_id w) = Inr () \<longrightarrow>
      fst (retrieve_secret_of_service_principal sp_id tenant (snd (remove_cached_creds sp_id w))) =
        Inl (CLIError (CouldNotRetrieve sp_id)))"
proof (intro conjI impI)
  assume a: "backend_usable w \<and> backing w \<noteq> Undecodable \<and>
    (\<forall>x\<in>set (loaded_creds w). has_key SERVICE_PRINCIPAL_ID x)"
  then have ok: "fst (load_cached_creds w) = Inr ()"
    by (simp add: load_cached_creds_ok)
  from a have "\<forall>x\<in>set (loaded_creds w). x SERVICE_PRINCIPAL_ID \<noteq> None"
    by (simp add: has_key_def)
  from select_by_wf [OF this, of sp_id]
  have sel: "select_by SERVICE_PRINCIPAL_ID sp_id (loaded_creds w) =
      Inr (filter (\<lambda>x. x SERVICE_PRINCIPAL_ID = Some sp_id) (loaded_creds w))" .
  show "(fst (retrieve_secret_of_service_principal sp_id tenant w) =
         Inl (CLIError (CouldNotRetrieve sp_id))) =
      (\<forall>x\<in>set (loaded_creds w). x SERVICE_PRINCIPAL_ID \<noteq> Some sp_id)"
  proof (cases "filter (\<lambda>x. x SERVICE_PRINCIPAL_ID = Some sp_id) (loaded_creds w)")
    case Nil
    then have "\<forall>x\<in>set (loaded_creds w). x SERVICE_PRINCIPAL_ID \<noteq> Some sp_id"
      by (simp only: filter_empty_conv)
    moreover have "fst (retrieve_secret_of_service_principal sp_id tenant w) =
         Inl (CLIError (CouldNotRetrieve sp_id))"
      using retrieve_not_found [OF ok] sel Nil by simp
    ultimately show ?thesis by simp
  next
    case (Cons m ms)
    then have "m \<in> set (filter (\<lambda>x. x SERVICE_PRINCIPAL_ID = Some sp_id) (loaded_creds w))"
      by simp
    then have "\<not> (\<forall>x\<in>set (loaded_creds w). x SERVICE_PRINCIPAL_ID \<noteq> Some sp_id)"
      by auto
    moreover have "fst (retrieve_secret_of_service_principal sp_id tenant w) \<noteq>
         Inl (CLIError (CouldNotRetrieve sp_id))"
      using retrieve_found [OF ok] sel Cons by simp
    ultimately show ?thesis by simp
  qed
next
  assume "fst (remove_cached_creds sp_id w) = Inr ()"
  then show "fst (retrieve_secret_of_service_principal sp_id tenant (snd (remove_cached_creds sp_id w))) =
        Inl (CLIError (CouldNotRetrieve sp_id))"
    by (rule remove_then_retrieve)
qed

theorem retrieve_not_logged_in_witness:
  "fst (retrieve_secret_of_service_principal ''sp2'' ''t1''
          (MsalSecretStore_init True ''linux'' True True (Content [sp1_t1_abc]))) =
     Inl (CLIError (CouldNotRetrieve ''sp2'')) \<and>
   fst (remove_cached_creds ''sp1''
          (MsalSecretStore_init True ''linux'' True True (Content [sp1_t1_abc]))) = Inr () \<and>
   fst (retrieve_secret_of_service_principal ''sp1'' ''t1''
          (snd (remove_cached_creds ''sp1''
             (MsalSecretStore_init True ''linux'' True True (Content [sp1_t1_abc]))))) =
     Inl (CLIError (CouldNotRetrieve ''sp1''))"
proof -
  let ?w = "MsalSecretStore_init True ''linux'' True True (Content [sp1_t1_abc])"
  have h: "backend_usable ?w \<and> backing ?w \<noteq> Undecodable \<and>
    (\<forall>x\<in>set (loaded_creds ?w). has_key SERVICE_PRINCIPAL_ID x)"
    by (simp add: eval_defs sp1_t1_abc_def key_defs)
  have n: "\<forall>x\<in>set (loaded_creds ?w). x SERVICE_PRINCIPAL_ID \<noteq> Some ''sp2''"
    by (simp add: eval_defs sp1_t1_abc_def key_defs)
  have r: "fst (remove_cached_creds ''sp1'' ?w) = Inr ()"
    by (simp add: eval_defs op_defs sp1_t1_abc_def key_defs)
  from retrieve_not_logged_in [of ?w "''sp2''" "''t1''"] retrieve_not_logged_in [of ?w "''sp1''" "''t1''"]
    h n r
  show ?thesis by blast
qed

subsection \<open>Cross-tenant fallback\<close>

text \<open>
  C7: when the backend can be read, every stored entry carries a principal id and a
  tenant, and \<open>m # ms\<close> are the stored entries of the requested principal in stored
  order, then retrieval does not fail. If none of them is of the requested tenant, the
  result is the credential of the first one, \<open>m\<close>, and the cross-tenant warning naming
  the tenant of \<open>m\<close> is the one event after the load; if some are of the requested
  tenant, the result is the credential of the first of those and nothing is logged.
\<close>

theorem retrieve_cross_tenant_fallback:
  assumes "backend_usable w" and "backing w \<noteq> Undecodable"
    and "\<forall>x\<in>set (loaded_creds w). well_formed x"
    and "filter (\<lambda>x. x SERVICE_PRINCIPAL_ID = Some sp_id) (loaded_creds w) = m # ms"
  shows "((\<forall>x\<in>set (m # ms). x SERVICE_PRINCIPAL_TENANT \<noteq> Some tenant) \<longrightarrow>
            fst (retrieve_secret_of_service_principal sp_id tenant w) = Inr (secret_or_certificate m) \<and>
            (\<exists>t. m SERVICE_PRINCIPAL_TENANT = Some t \<and>
                 trace (snd (retrieve_secret_of_service_principal sp_id tenant w)) =
                 trace (snd (load_cached_creds w)) @ [Log (CrossTenant sp_id tenant t)])) \<and>
         (\<forall>c cs. filter (\<lambda>x. x SERVICE_PRINCIPAL_TENANT = Some tenant) (m # ms) = c # cs \<longrightarrow>
            fst (retrieve_secret_of_service_principal sp_id tenant w) = Inr (secret_or_certificate c) \<and>
            trace (snd (retrieve_secret_of_service_principal sp_id tenant w)) =
            trace (snd (load_cached_creds w)))"
  using retrieve_well_formed [OF assms] .

theorem retrieve_cross_tenant_fallback_witness:
  "fst (retrieve_secret_of_service_principal ''sp1'' ''t2''
          (MsalSecretStore_init True ''linux'' True True (Content [sp1_t1_abc]))) = Inr (Some ''abc'') \<and>
   trace (snd (retrieve_secret_of_service_principal ''sp1'' ''t2''
          (MsalSecretStore_init True ''linux'' True True (Content [sp1_t1_abc])))) =
     [Acquire, Load, Release, Log (CrossTenant ''sp1'' ''t2'' ''t1'')]"
proof -
  let ?w = "MsalSecretStore_init True ''linux'' True True (Content [sp1_t1_abc])"
  have h1: "backend_usable ?w" by (simp add: eval_defs)
  have h2: "backing ?w \<noteq> Undecodable" by (simp add: eval_defs)
  have h3: "\<forall>x\<in>set (loaded_creds ?w). well_formed x"
    by (simp add: eval_defs sp1_t1_abc_def key_defs)
  have h4: "filter (\<lambda>x. x SERVICE_PRINCIPAL_ID = Some ''sp1'') (loaded_creds ?w) = sp1_t1_abc # []"
    by (simp add: eval_defs sp1_t1_abc_def key_defs)
  from retrieve_cross_tenant_fallback [OF h1 h2 h3 h4, of "''t2''"] show ?thesis
    by (simp add: eval_defs sp1_t1_abc_def key_defs)
qed

subsection \<open>Uniqueness of principal and tenant\<close>

text \<open>
  C8: if no two entries of the list in memory, and no two entries of the list the
  backend holds, have the same pair of principal id and tenant, then the same is true
  after \<open>save_service_principal_cred\<close>, after \<open>remove_cached_creds\<close> and after
  \<open>remove_all_cached_creds\<close>, whether they return normally or raise.
\<close>

theorem uniqueness_preserved:
  assumes "store_unique w"
  shows "store_unique (snd (save_service_principal_cred e w)) \<and>
         store_unique (snd (remove_cached_creds p w)) \<and>
         store_unique (snd (remove_all_cached_creds w))"
  using store_unique_save [OF assms] store_unique_remove [OF assms]
    store_unique_remove_all [OF assms]
  by simp

theorem uniqueness_preserved_witness:
  "store_unique (MsalSecretStore_init True ''win32'' False True (Content [sp1_t1_abc])) \<and>
   store_unique (snd (save_service_principal_cred sp1_t1_xyz
      (MsalSecretStore_init True ''win32'' False True (Content [sp1_t1_abc])))) \<and>
   store_unique (snd (remove_cached_creds ''sp1''
      (MsalSecretStore_init True ''win32'' False True (Content [sp1_t1_abc])))) \<and>
   store_unique (snd (remove_all_cached_creds
      (MsalSecretStore_init True ''win32'' False True (Content [sp1_t1_abc]))))"
proof -
  have h: "store_unique (MsalSecretStore_init True ''win32'' False True (Content [sp1_t1_abc]))"
    by (simp add: store_unique_def unique_principals_def MsalSecretStore_init_def)
  from h uniqueness_preserved [OF h, of sp1_t1_xyz "''sp1''"] show ?thesis by simp
qed

subsection \<open>Clearing the store\<close>

text \<open>
  C9: \<open>remove_all_cached_creds\<close> on a missing artifact returns without an error and
  changes nothing but the trace, whatever the list in memory is; on an artifact that can
  be deleted it succeeds whatever the artifact holds, an empty list included; and after
  one successful call a second call succeeds as well and leaves the same state.
\<close>

theorem remove_all_missing_succeeds:
  "(backing w = Absent \<longrightarrow>
      remove_all_cached_creds w = (Inr (), emit Remove w)) \<and>
   (storage_writable w \<longrightarrow>
      fst (remove_all_cached_creds w) = Inr () \<and>
      backing (snd (remove_all_cached_creds w)) = Absent) \<and>
   (fst (remove_all_cached_creds w) = Inr () \<longrightarrow>
      fst (remove_all_cached_creds (snd (remove_all_cached_creds w))) = Inr () \<and>
      backing (snd (remove_all_cached_creds (snd (remove_all_cached_creds w)))) =
        backing (snd (remove_all_cached_creds w)) \<and>
      service_principal_creds (snd (remove_all_cached_creds (snd (remove_all_cached_creds w)))) =
        service_principal_creds (snd (remove_all_cached_creds w)))"
  by (simp add: remove_all_cached_creds_def emit_def Let_def split: artifact.splits)

theorem remove_all_missing_succeeds_witness:
  "remove_all_cached_creds (MsalSecretStore_init True ''linux'' True False Absent) =
     (Inr (), emit Remove (MsalSecretStore_init True ''linux'' True False Absent)) \<and>
   fst (remove_all_cached_creds (snd (remove_all_cached_creds
          (MsalSecretStore_init True ''linux'' True True (Content [sp1_t1_abc]))))) = Inr ()"
  using remove_all_missing_succeeds [of "MsalSecretStore_init True ''linux'' True False Absent"]
    remove_all_missing_succeeds [of "MsalSecretStore_init True ''linux'' True True (Content [sp1_t1_abc])"]
  by (simp add: MsalSecretStore_init_def remove_all_cached_creds_def emit_def)

subsection \<open>What retrieval returns\<close>

text \<open>
  C10: under the same conditions, once an entry of the requested principal is stored,
  retrieval returns and what it returns is, for one of the stored entries \<open>c\<close> of that
  principal, the value of \<open>secret\<close> when that key is present with a non-empty value,
  and otherwise whatever \<open>certificateFile\<close> holds, \<open>None\<close> when the key is absent. So
  an entry in the legacy format, which keeps the secret under \<open>accessToken\<close>, yields
  \<open>None\<close> when it was made from a secret and the certificate path otherwise.
\<close>

theorem retrieve_matched_never_raises:
  assumes "backend_usable w" and "backing w \<noteq> Undecodable"
    and "\<forall>x\<in>set (loaded_creds w). well_formed x"
    and "\<exists>x\<in>set (loaded_creds w). x SERVICE_PRINCIPAL_ID = Some sp_id"
  shows "(\<exists>c\<in>set (loaded_creds w). c SERVICE_PRINCIPAL_ID = Some sp_id \<and>
           fst (retrieve_secret_of_service_principal sp_id tenant w) =
             Inr (case c SERVICE_PRINCIPAL_SECRET of
                    Some s \<Rightarrow> if s \<noteq> [] then Some s else c SERVICE_PRINCIPAL_CERT_FILE
                  | None \<Rightarrow> c SERVICE_PRINCIPAL_CERT_FILE)) \<and>
         secret_or_certificate (get_entry_to_persist_legacy a) =
           (case secret a of Some s \<Rightarrow> None | None \<Rightarrow> certificate_file a)"
proof -
  have soc: "\<And>c. secret_or_certificate c =
      (case c SERVICE_PRINCIPAL_SECRET of
         Some s \<Rightarrow> if s \<noteq> [] then Some s else c SERVICE_PRINCIPAL_CERT_FILE
       | None \<Rightarrow> c SERVICE_PRINCIPAL_CERT_FILE)"
    by (simp add: secret_or_certificate_def truthy_def split: option.splits)
  obtain m ms where f: "filter (\<lambda>x. x SERVICE_PRINCIPAL_ID = Some sp_id) (loaded_creds w) = m # ms"
    using assms(4) by (cases "filter (\<lambda>x. x SERVICE_PRINCIPAL_ID = Some sp_id) (loaded_creds w)")
      (auto simp: filter_empty_conv)
  note ct = retrieve_well_formed [OF assms(1-3) f, of tenant]
  have sub: "\<And>c. c \<in> set (m # ms) \<Longrightarrow> c \<in> set (loaded_creds w) \<and> c SERVICE_PRINCIPAL_ID = Some sp_id"
  proof -
    fix c assume "c \<in> set (m # ms)"
    then have "c \<in> set (filter (\<lambda>x. x SERVICE_PRINCIPAL_ID = Some sp_id) (loaded_creds w))"
      using f by simp
    then show "c \<in> set (loaded_creds w) \<and> c SERVICE_PRINCIPAL_ID = Some sp_id"
      by simp
  qed
  have "\<exists>c\<in>set (m # ms). fst (retrieve_secret_of_service_principal sp_id tenant w) =
      Inr (secret_or_certificate c)"
  proof (cases "filter (\<lambda>x. x SERVICE_PRINCIPAL_TENANT = Some tenant) (m # ms)")
    case Nil
    then have "\<forall>x\<in>set (m # ms). x SERVICE_PRINCIPAL_TENANT \<noteq> Some tenant"
      by (simp only: filter_empty_conv)
    with ct show ?thesis by auto
  next
    case (Cons c cs)
    then have "c \<in> set (m # ms)"
      by (metis filter_is_subset list.set_intros(1) subsetD)
    with ct Cons show ?thesis by blast
  qed
  then have first: "\<exists>c\<in>set (loaded_creds w). c SERVICE_PRINCIPAL_ID = Some sp_id \<and>
           fst (retrieve_secret_of_service_principal sp_id tenant w) =
             Inr (case c SERVICE_PRINCIPAL_SECRET of
                    Some s \<Rightarrow> if s \<noteq> [] then Some s else c SERVICE_PRINCIPAL_CERT_FILE
                  | None \<Rightarrow> c SERVICE_PRINCIPAL_CERT_FILE)"
    using sub soc by metis
  have second: "secret_or_certificate (get_entry_to_persist_legacy a) =
           (case secret a of Some s \<Rightarrow> None | None \<Rightarrow> certificate_file a)"
    by (simp add: secret_or_certificate_def truthy_def get_entry_to_persist_legacy_def key_defs
             split: option.splits)
  from first second show ?thesis by blast
qed

theorem retrieve_matched_never_raises_witness:
  "fst (retrieve_secret_of_service_principal ''sp1'' ''t1''
          (MsalSecretStore_init True ''darwin'' False True (Content [sp1_t1_legacy]))) = Inr None"
proof -
  let ?w = "MsalSecretStore_init True ''darwin'' False True (Content [sp1_t1_legacy])"
  have h1: "backend_usable ?w" by (simp add: eval_defs)
  have h2: "backing ?w \<noteq> Undecodable" by (simp add: eval_defs)
  have h3: "\<forall>x\<in>set (loaded_creds ?w). well_formed x"
    by (simp add: eval_defs sp1_t1_legacy_def key_defs)
  have h4: "\<exists>x\<in>set (loaded_creds ?w). x SERVICE_PRINCIPAL_ID = Some ''sp1''"
    by (simp add: eval_defs sp1_t1_legacy_def key_defs)
  from retrieve_matched_never_raises [OF h1 h2 h3 h4, of "''t1''"] show ?thesis
    by (simp add: eval_defs sp1_t1_legacy_def key_defs)
qed

end
